theory Spec2Isabelle
  imports Main "HOL-Library.AList"
begin

section \<open>JSON records and Python dictionaries\<close>

text \<open>
  Task lists and tasks are Python dictionaries holding JSON values. The service only
  reads and writes string and boolean fields (\<open>id\<close>, \<open>title\<close>, \<open>status\<close>, \<open>due\<close>,
  \<open>notes\<close>, \<open>deleted\<close>), so a value is a string or a boolean. A dictionary is an
  association list in insertion order: assigning to a key that is present replaces the
  value in place, assigning to a new key appends, as a Python \<open>dict\<close> does.
\<close>

datatype json = JBool bool | JStr string

type_synonym jdict = "(string \<times> json) list"

text \<open>The exceptions that the modelled code can raise or receive.\<close>

datatype exn = KeyError | AttributeError | TypeError | ValueError | ParserError | HttpError

text \<open>\<^verbatim>\<open>d.get(k)\<close>: the value, or Python's \<open>None\<close>.\<close>

definition dict_get :: "jdict \<Rightarrow> string \<Rightarrow> json option" where
  "dict_get d k = map_of d k"

text \<open>\<^verbatim>\<open>d[k] = v\<close>\<close>

definition dict_set :: "jdict \<Rightarrow> string \<Rightarrow> json \<Rightarrow> jdict" where
  "dict_set d k v = AList.update k v d"

text \<open>\<^verbatim>\<open>d[k]\<close>, which raises \<open>KeyError\<close> on a missing key.\<close>

definition dict_item :: "jdict \<Rightarrow> string \<Rightarrow> exn + json" where
  "dict_item d k = (case map_of d k of None \<Rightarrow> Inl KeyError | Some v \<Rightarrow> Inr v)"

text \<open>Python truthiness of the result of \<^verbatim>\<open>d.get(k)\<close>.\<close>

fun truthy :: "json option \<Rightarrow> bool" where
  "truthy None = False"
| "truthy (Some (JBool b)) = b"
| "truthy (Some (JStr s)) = (s \<noteq> [])"

text \<open>\<^verbatim>\<open>s.startswith(p)\<close>\<close>

definition startswith :: "string \<Rightarrow> string \<Rightarrow> bool" where
  "startswith s p = (take (length p) s = p)"

text \<open>
  \<^verbatim>\<open>rec['id']\<close> as the receiver of \<^verbatim>\<open>.startswith\<close>: \<open>KeyError\<close> without an \<open>id\<close>,
  \<open>AttributeError\<close> when the \<open>id\<close> is not a string.
\<close>

definition str_id :: "jdict \<Rightarrow> exn + string" where
  "str_id d =
     (case map_of d ''id'' of
        None \<Rightarrow> Inl KeyError
      | Some (JBool b) \<Rightarrow> Inl AttributeError
      | Some (JStr i) \<Rightarrow> Inr i)"

text \<open>
  \<^verbatim>\<open>str(n)\<close> for the integer read from the clock, as the f-strings
  \<^verbatim>\<open>f'temp_{int(time.time())}'\<close> print it.
\<close>

definition digit_char :: "nat \<Rightarrow> char" where
  "digit_char n = ''0123456789'' ! n"

fun str_nat :: "nat \<Rightarrow> string" where
  "str_nat n = (if n < 10 then [digit_char n] else str_nat (n div 10) @ [digit_char (n mod 10)])"

declare str_nat.simps [simp del]

definition str_int :: "int \<Rightarrow> string" where
  "str_int i = (if i < 0 then CHR ''-'' # str_nat (nat (- i)) else str_nat (nat i))"

section \<open>The state of the service\<close>

text \<open>
  \<^verbatim>\<open>self.data\<close> is the snapshot: the list of task lists and the dictionary from list
  identifier to the list of tasks, an association list in insertion order. Its keys are
  JSON values: the key of a migrated bucket is whatever \<open>id\<close> the server returned.
\<close>

record snapshot =
  task_lists :: "jdict list"
  tasks :: "(json \<times> jdict list) list"

text \<open>The calls that the service makes on the Google Tasks client.\<close>

datatype request =
    TasklistsList
  | TasksList json
  | TasklistsDelete string
  | TasklistsInsert jdict
  | TasksDelete string string
  | TasksInsert string jdict
  | TasksGet string string
  | TasksUpdate string string jdict

text \<open>
  The client is a parameter of the model. \<open>execute\<close> runs a call that returns one
  resource (or nothing, for a delete) on the server state and gives the response or the
  exception raised, with the next server state; \<open>execute_list\<close> does so for the two
  listing calls and gives \<^verbatim>\<open>response.get('items', [])\<close>.
\<close>

record 'r tasks_api =
  execute :: "'r \<Rightarrow> request \<Rightarrow> (exn + jdict) \<times> 'r"
  execute_list :: "'r \<Rightarrow> request \<Rightarrow> (exn + jdict list) \<times> 'r"

text \<open>
  The state that the methods of \<open>TaskService\<close> read and write: the fields of \<open>self\<close>
  (\<open>data\<close>, \<open>dirty\<close>, \<open>active_list_id\<close>, with \<open>None\<close> for Python's \<open>None\<close>), the state
  \<open>remote\<close> of the server behind \<^verbatim>\<open>self.service\<close>, the log \<open>requests\<close> of the calls
  executed on it (oldest first), and the storage file \<^verbatim>\<open>local_tasks.json\<close>:
  \<open>storage_file\<close> is its parsed content (\<open>None\<close> when the file is missing or does not
  parse) and \<open>storage_writable\<close> tells whether opening it for writing succeeds.
\<close>

record 'r task_service =
  data :: snapshot
  dirty :: bool
  active_list_id :: "json option"
  remote :: 'r
  requests :: "request list"
  storage_file :: "snapshot option"
  storage_writable :: bool

section \<open>local_storage.py\<close>

definition load_data :: "'r task_service \<Rightarrow> snapshot" where
  "load_data s =
     (case storage_file s of
        None \<Rightarrow> \<lparr>task_lists = [], tasks = []\<rparr>
      | Some d \<Rightarrow> d)"

text \<open>\<^verbatim>\<open>save_data\<close> swallows the \<open>IOError\<close> of a file that cannot be opened for writing.\<close>

definition save_data :: "snapshot \<Rightarrow> 'r task_service \<Rightarrow> 'r task_service" where
  "save_data d s = (if storage_writable s then s\<lparr>storage_file := Some d\<rparr> else s)"

section \<open>tasks_tui/task_service.py: the operations on the local cache\<close>

definition save_local_data :: "'r task_service \<Rightarrow> 'r task_service" where
  "save_local_data s = (save_data (data s) s)\<lparr>dirty := False\<rparr>"

definition not_deleted :: "jdict \<Rightarrow> bool" where
  "not_deleted d = (\<not> truthy (dict_get d ''deleted''))"

definition get_task_lists :: "'r task_service \<Rightarrow> jdict list" where
  "get_task_lists s = filter not_deleted (task_lists (data s))"

text \<open>\<^verbatim>\<open>self.data['tasks'].get(list_id, [])\<close>\<close>

definition bucket :: "'r task_service \<Rightarrow> string \<Rightarrow> jdict list" where
  "bucket s list_id = (case map_of (tasks (data s)) (JStr list_id) of None \<Rightarrow> [] | Some ts \<Rightarrow> ts)"

text \<open>
  The list identifier that a caller passes is a string; the empty string stands for
  every falsy argument (\<open>None\<close> and \<^verbatim>\<open>''\<close> take the same branch of \<^verbatim>\<open>if not list_id\<close>
  and of \<^verbatim>\<open>list_id or self.active_list_id\<close>).
\<close>

definition get_tasks_for_list :: "'r task_service \<Rightarrow> string \<Rightarrow> jdict list" where
  "get_tasks_for_list s list_id =
     (let lid = (if list_id \<noteq> [] then Some (JStr list_id) else active_list_id s)
      in if \<not> truthy lid then []
         else (case lid of
                 None \<Rightarrow> []
               | Some k \<Rightarrow>
                   filter not_deleted
                     (case map_of (tasks (data s)) k of None \<Rightarrow> [] | Some ts \<Rightarrow> ts)))"

text \<open>In-place replacement of a bucket that exists: \<^verbatim>\<open>tasks[i] = ...\<close> on the list object.\<close>

definition set_bucket :: "string \<Rightarrow> jdict list \<Rightarrow> 'r task_service \<Rightarrow> 'r task_service" where
  "set_bucket list_id ts s = s\<lparr>data := (data s)\<lparr>tasks := AList.update (JStr list_id) ts (tasks (data s))\<rparr>\<rparr>"

definition set_task_lists :: "jdict list \<Rightarrow> 'r task_service \<Rightarrow> 'r task_service" where
  "set_task_lists ls s = s\<lparr>data := (data s)\<lparr>task_lists := ls\<rparr>\<rparr>"

text \<open>
  \<open>now\<close> is the value of \<^verbatim>\<open>int(time.time())\<close> when the operation runs. The result is
  the returned task, \<open>None\<close> for Python's \<open>None\<close>.
\<close>

definition add_task :: "'r task_service \<Rightarrow> int \<Rightarrow> string \<Rightarrow> string \<Rightarrow> jdict option \<times> 'r task_service" where
  "add_task s now list_id title =
     (if list_id = [] then (None, s)
      else
        let temp_id = ''temp_'' @ str_int now;
            task = [(''title'', JStr title), (''id'', JStr temp_id), (''status'', JStr ''needsAction'')];
            s1 = (if JStr list_id \<notin> fst ` set (tasks (data s)) then set_bucket list_id [] s else s);
            s2 = set_bucket list_id (bucket s1 list_id @ [task]) s1
        in (Some task, s2\<lparr>dirty := True\<rparr>))"

text \<open>
  The loop shared by the operations on one record:
  \<^verbatim>\<open>for rec in recs: if rec['id'] == wanted: <update rec>; return rec\<close>.
  The result is the updated record with the updated list, \<open>None\<close> when the loop ends
  without a match, and \<open>KeyError\<close> when a record before the match has no \<open>id\<close>.
\<close>

fun scan_records :: "(jdict \<Rightarrow> jdict) \<Rightarrow> string \<Rightarrow> jdict list \<Rightarrow> exn + (jdict \<times> jdict list) option" where
  "scan_records f wanted [] = Inr None"
| "scan_records f wanted (r # rs) =
     (case map_of r ''id'' of
        None \<Rightarrow> Inl KeyError
      | Some i \<Rightarrow>
          if i = JStr wanted then Inr (Some (f r, f r # rs))
          else (case scan_records f wanted rs of
                  Inl e \<Rightarrow> Inl e
                | Inr None \<Rightarrow> Inr None
                | Inr (Some (u, rs')) \<Rightarrow> Inr (Some (u, r # rs'))))"

text \<open>An operation that updates the first task with the given identifier and returns it.\<close>

definition update_task :: "(jdict \<Rightarrow> jdict) \<Rightarrow> 'r task_service \<Rightarrow> string \<Rightarrow> string \<Rightarrow> (exn + jdict option) \<times> 'r task_service" where
  "update_task f s list_id task_id =
     (if list_id = [] then (Inr None, s)
      else (case scan_records f task_id (bucket s list_id) of
              Inl e \<Rightarrow> (Inl e, s)
            | Inr None \<Rightarrow> (Inr None, s)
            | Inr (Some (t, ts)) \<Rightarrow> (Inr (Some t), (set_bucket list_id ts s)\<lparr>dirty := True\<rparr>)))"

definition toggle_status :: "jdict \<Rightarrow> jdict" where
  "toggle_status t =
     dict_set t ''status''
       (JStr (if dict_get t ''status'' = Some (JStr ''needsAction'') then ''completed'' else ''needsAction''))"

definition toggle_task_status :: "'r task_service \<Rightarrow> string \<Rightarrow> string \<Rightarrow> (exn + jdict option) \<times> 'r task_service" where
  "toggle_task_status s list_id task_id = update_task toggle_status s list_id task_id"

text \<open>\<open>delete_task\<close> returns \<open>None\<close>, \<open>True\<close> or \<open>False\<close>.\<close>

definition delete_task :: "'r task_service \<Rightarrow> string \<Rightarrow> string \<Rightarrow> (exn + bool option) \<times> 'r task_service" where
  "delete_task s list_id task_id =
     (if list_id = [] then (Inr None, s)
      else (case scan_records (\<lambda>t. dict_set t ''deleted'' (JBool True)) task_id (bucket s list_id) of
              Inl e \<Rightarrow> (Inl e, s)
            | Inr None \<Rightarrow> (Inr (Some False), s)
            | Inr (Some (t, ts)) \<Rightarrow> (Inr (Some True), (set_bucket list_id ts s)\<lparr>dirty := True\<rparr>)))"

definition rename_task :: "'r task_service \<Rightarrow> string \<Rightarrow> string \<Rightarrow> string \<Rightarrow> (exn + jdict option) \<times> 'r task_service" where
  "rename_task s list_id task_id new_name =
     update_task (\<lambda>t. dict_set t ''title'' (JStr new_name)) s list_id task_id"

definition change_detail_task :: "'r task_service \<Rightarrow> string \<Rightarrow> string \<Rightarrow> string \<Rightarrow> (exn + jdict option) \<times> 'r task_service" where
  "change_detail_task s list_id task_id detail =
     update_task (\<lambda>t. dict_set t ''notes'' (JStr detail)) s list_id task_id"

definition get_task :: "'r task_service \<Rightarrow> string \<Rightarrow> string \<Rightarrow> exn + jdict option" where
  "get_task s list_id task_id =
     (if list_id = [] then Inr None
      else (case scan_records (\<lambda>t. t) task_id (bucket s list_id) of
              Inl e \<Rightarrow> Inl e
            | Inr None \<Rightarrow> Inr None
            | Inr (Some (t, ts)) \<Rightarrow> Inr (Some t)))"

text \<open>
  The part of \<open>dateutil\<close> that \<open>change_date_task\<close> uses, a parameter of the model:
  \<open>isoparse\<close> gives \<^verbatim>\<open>isoparse(date_str).isoformat()\<close> or the exception raised, and
  \<open>isoparse_ParserError\<close> is the value of the attribute \<^verbatim>\<open>isoparse.ParserError\<close>,
  \<open>None\<close> when the function object has no such attribute.
\<close>

record dateutil =
  isoparse :: "string \<Rightarrow> exn + string"
  isoparse_ParserError :: "exn option"

text \<open>\<^verbatim>\<open>isinstance(e, c)\<close>: in \<open>dateutil\<close>, \<open>ParserError\<close> is a subclass of \<open>ValueError\<close>.\<close>

definition isinstance_exn :: "exn \<Rightarrow> exn \<Rightarrow> bool" where
  "isinstance_exn e c = (e = c \<or> (e = ParserError \<and> c = ValueError))"

text \<open>
  The \<^verbatim>\<open>try\<close> block of \<open>change_date_task\<close>, and then its handler
  \<^verbatim>\<open>except (isoparse.ParserError, ValueError): return None\<close>. Python evaluates the
  tuple of the \<^verbatim>\<open>except\<close> clause when an exception reaches it, so a missing attribute
  raises \<open>AttributeError\<close> there.
\<close>

definition change_date_task_try :: "dateutil \<Rightarrow> 'r task_service \<Rightarrow> string \<Rightarrow> string \<Rightarrow> string \<Rightarrow> (exn + jdict option) \<times> 'r task_service" where
  "change_date_task_try lib s list_id task_id date_str =
     (case isoparse lib date_str of
        Inl e \<Rightarrow> (Inl e, s)
      | Inr stamp \<Rightarrow>
          (case scan_records (\<lambda>t. dict_set t ''due'' (JStr (stamp @ ''Z''))) task_id (bucket s list_id) of
             Inl e \<Rightarrow> (Inl e, s)
           | Inr None \<Rightarrow> (Inr None, s)
           | Inr (Some (t, ts)) \<Rightarrow> (Inr (Some t), (set_bucket list_id ts s)\<lparr>dirty := True\<rparr>)))"

definition change_date_task :: "dateutil \<Rightarrow> 'r task_service \<Rightarrow> string \<Rightarrow> string \<Rightarrow> string \<Rightarrow> (exn + jdict option) \<times> 'r task_service" where
  "change_date_task lib s list_id task_id date_str =
     (if list_id = [] then (Inr None, s)
      else (case change_date_task_try lib s list_id task_id date_str of
              (Inr r, s') \<Rightarrow> (Inr r, s')
            | (Inl e, s') \<Rightarrow>
                (case isoparse_ParserError lib of
                   None \<Rightarrow> (Inl AttributeError, s')
                 | Some c \<Rightarrow>
                     if isinstance_exn e c \<or> isinstance_exn e ValueError then (Inr None, s')
                     else (Inl e, s'))))"

definition set_active_list :: "'r task_service \<Rightarrow> string \<Rightarrow> bool \<times> 'r task_service" where
  "set_active_list s list_id = (True, s\<lparr>active_list_id := Some (JStr list_id)\<rparr>)"

definition add_list :: "'r task_service \<Rightarrow> int \<Rightarrow> string \<Rightarrow> jdict \<times> 'r task_service" where
  "add_list s now list_name =
     (let temp_id = ''temp_list_'' @ str_int now;
          list_body = [(''title'', JStr list_name), (''id'', JStr temp_id)];
          s1 = set_task_lists (task_lists (data s) @ [list_body]) s;
          s2 = set_bucket temp_id [] s1
      in (list_body, s2\<lparr>dirty := True\<rparr>))"

definition delete_list :: "'r task_service \<Rightarrow> string \<Rightarrow> (exn + bool) \<times> 'r task_service" where
  "delete_list s list_id =
     (case scan_records (\<lambda>l. dict_set l ''deleted'' (JBool True)) list_id (task_lists (data s)) of
        Inl e \<Rightarrow> (Inl e, s)
      | Inr None \<Rightarrow> (Inr False, s)
      | Inr (Some (l, ls)) \<Rightarrow> (Inr True, (set_task_lists ls s)\<lparr>dirty := True\<rparr>))"

text \<open>\<open>rename_list\<close> returns \<open>None\<close> or \<open>True\<close>.\<close>

definition rename_list :: "'r task_service \<Rightarrow> string \<Rightarrow> string \<Rightarrow> (exn + bool option) \<times> 'r task_service" where
  "rename_list s list_id new_title =
     (if list_id = [] then (Inr None, s)
      else (case scan_records (\<lambda>l. dict_set l ''title'' (JStr new_title)) list_id (task_lists (data s)) of
              Inl e \<Rightarrow> (Inl e, s)
            | Inr None \<Rightarrow> (Inr None, s)
            | Inr (Some (l, ls)) \<Rightarrow> (Inr (Some True), (set_task_lists ls s)\<lparr>dirty := True\<rparr>)))"

section \<open>tasks_tui/task_service.py: synchronisation\<close>

text \<open>
  One call on the client: the server state moves on and the call is logged, whether it
  returns or raises.
\<close>

definition call :: "'r tasks_api \<Rightarrow> request \<Rightarrow> 'r task_service \<Rightarrow> (exn + jdict) \<times> 'r task_service" where
  "call api req s =
     (case execute api (remote s) req of
        (res, r') \<Rightarrow> (res, s\<lparr>remote := r', requests := requests s @ [req]\<rparr>))"

definition call_list :: "'r tasks_api \<Rightarrow> request \<Rightarrow> 'r task_service \<Rightarrow> (exn + jdict list) \<times> 'r task_service" where
  "call_list api req s =
     (case execute_list api (remote s) req of
        (res, r') \<Rightarrow> (res, s\<lparr>remote := r', requests := requests s @ [req]\<rparr>))"

definition set_tasks :: "(json \<times> jdict list) list \<Rightarrow> 'r task_service \<Rightarrow> 'r task_service" where
  "set_tasks ts s = s\<lparr>data := (data s)\<lparr>tasks := ts\<rparr>\<rparr>"

text \<open>
  The loops of \<open>sync_to_google\<close> replace elements of the lists they run over
  (\<^verbatim>\<open>self.data['task_lists'][i] = new_list\<close>, \<^verbatim>\<open>tasks[i] = new_task\<close>). Each loop is a
  recursion over the elements that returns the exception that left it (\<open>None\<close> when it
  ran to its end), the list as the loop left it (the elements after an exception are
  the old ones) and the state of the client; \<open>sync_to_google\<close> stores the list back.
\<close>

definition cons_result :: "'a \<Rightarrow> exn option \<times> 'a list \<times> 'b \<Rightarrow> exn option \<times> 'a list \<times> 'b" where
  "cons_result x r = (case r of (e, xs, s) \<Rightarrow> (e, x # xs, s))"

text \<open>
  The first loop: deleted lists and new lists. \<open>m\<close> is \<open>new_list_id_map\<close>; the result
  carries it in front of the state.
\<close>

fun sync_lists :: "'r tasks_api \<Rightarrow> jdict list \<Rightarrow> (string \<times> json) list \<Rightarrow> 'r task_service
    \<Rightarrow> exn option \<times> jdict list \<times> (string \<times> json) list \<times> 'r task_service" where
  "sync_lists api [] m s = (None, [], m, s)"
| "sync_lists api (task_list # rest) m s =
     (if truthy (dict_get task_list ''deleted'') then
        (case str_id task_list of
           Inl e \<Rightarrow> (Some e, task_list # rest, m, s)
         | Inr list_id \<Rightarrow>
             if \<not> startswith list_id ''temp_list_'' then
               (case call api (TasklistsDelete list_id) s of
                  (res, s') \<Rightarrow> cons_result task_list (sync_lists api rest m s'))
             else cons_result task_list (sync_lists api rest m s))
      else
        (case str_id task_list of
           Inl e \<Rightarrow> (Some e, task_list # rest, m, s)
         | Inr old_id \<Rightarrow>
             if startswith old_id ''temp_list_'' then
               (case dict_item task_list ''title'' of
                  Inl e \<Rightarrow> (Some e, task_list # rest, m, s)
                | Inr title \<Rightarrow>
                    (case call api (TasklistsInsert [(''title'', title)]) s of
                       (Inl e, s') \<Rightarrow> (Some e, task_list # rest, m, s')
                     | (Inr new_list, s') \<Rightarrow>
                         (case dict_item new_list ''id'' of
                            Inl e \<Rightarrow> (Some e, new_list # rest, m, s')
                          | Inr new_id \<Rightarrow>
                              cons_result new_list
                                (sync_lists api rest (AList.update old_id new_id m) s'))))
             else cons_result task_list (sync_lists api rest m s)))"

text \<open>
  The second loop:
  \<^verbatim>\<open>if old_id in self.data['tasks']: self.data['tasks'][new_id] = self.data['tasks'].pop(old_id)\<close>
\<close>

definition migrate_step :: "string \<Rightarrow> json \<Rightarrow> (json \<times> jdict list) list \<Rightarrow> (json \<times> jdict list) list" where
  "migrate_step old_id new_id ts =
     (case map_of ts (JStr old_id) of
        None \<Rightarrow> ts
      | Some b \<Rightarrow> AList.update new_id b (AList.delete (JStr old_id) ts))"

fun migrate_buckets :: "(string \<times> json) list \<Rightarrow> (json \<times> jdict list) list \<Rightarrow> (json \<times> jdict list) list" where
  "migrate_buckets [] ts = ts"
| "migrate_buckets ((old_id, new_id) # m) ts = migrate_buckets m (migrate_step old_id new_id ts)"

text \<open>The body sent for a new task: the title, and \<open>due\<close> and \<open>notes\<close> when present.\<close>

definition new_task_body :: "json \<Rightarrow> jdict \<Rightarrow> jdict" where
  "new_task_body title task =
     (let b0 = [(''title'', title)];
          b1 = (case map_of task ''due'' of None \<Rightarrow> b0 | Some d \<Rightarrow> dict_set b0 ''due'' d);
          b2 = (case map_of task ''notes'' of None \<Rightarrow> b1 | Some n \<Rightarrow> dict_set b1 ''notes'' n)
      in b2)"

definition task_differs :: "jdict \<Rightarrow> jdict \<Rightarrow> bool" where
  "task_differs google_task task =
     (dict_get google_task ''title'' \<noteq> dict_get task ''title'' \<or>
      dict_get google_task ''status'' \<noteq> dict_get task ''status'' \<or>
      dict_get google_task ''due'' \<noteq> dict_get task ''due'' \<or>
      dict_get google_task ''notes'' \<noteq> dict_get task ''notes'')"

text \<open>The inner loop of the third loop: the tasks of one list.\<close>

fun sync_tasks :: "'r tasks_api \<Rightarrow> string \<Rightarrow> jdict list \<Rightarrow> 'r task_service
    \<Rightarrow> exn option \<times> jdict list \<times> 'r task_service" where
  "sync_tasks api list_id [] s = (None, [], s)"
| "sync_tasks api list_id (task # rest) s =
     (if truthy (dict_get task ''deleted'') then
        (case str_id task of
           Inl e \<Rightarrow> (Some e, task # rest, s)
         | Inr task_id \<Rightarrow>
             if \<not> startswith task_id ''temp_'' then
               (case call api (TasksDelete list_id task_id) s of
                  (res, s') \<Rightarrow> cons_result task (sync_tasks api list_id rest s'))
             else cons_result task (sync_tasks api list_id rest s))
      else
        (case str_id task of
           Inl e \<Rightarrow> (Some e, task # rest, s)
         | Inr task_id \<Rightarrow>
             if startswith task_id ''temp_'' then
               (case dict_item task ''title'' of
                  Inl e \<Rightarrow> (Some e, task # rest, s)
                | Inr title \<Rightarrow>
                    (case call api (TasksInsert list_id (new_task_body title task)) s of
                       (Inl e, s') \<Rightarrow> (Some e, task # rest, s')
                     | (Inr new_task, s') \<Rightarrow>
                         cons_result new_task (sync_tasks api list_id rest s')))
             else
               (case call api (TasksGet list_id task_id) s of
                  (Inl e, s') \<Rightarrow> cons_result task (sync_tasks api list_id rest s')
                | (Inr google_task, s') \<Rightarrow>
                    if task_differs google_task task then
                      (case call api (TasksUpdate list_id task_id task) s' of
                         (Inl e, s'') \<Rightarrow> cons_result task (sync_tasks api list_id rest s'')
                       | (Inr updated_task, s'') \<Rightarrow>
                           cons_result updated_task (sync_tasks api list_id rest s''))
                    else cons_result task (sync_tasks api list_id rest s'))))"

text \<open>
  The third loop, over \<^verbatim>\<open>self.data['tasks'].items()\<close>. A key that is not a string has no
  \<open>startswith\<close>.
\<close>

fun sync_buckets :: "'r tasks_api \<Rightarrow> (json \<times> jdict list) list \<Rightarrow> 'r task_service
    \<Rightarrow> exn option \<times> (json \<times> jdict list) list \<times> 'r task_service" where
  "sync_buckets api [] s = (None, [], s)"
| "sync_buckets api ((key, ts) # rest) s =
     (case key of
        JBool b \<Rightarrow> (Some AttributeError, (key, ts) # rest, s)
      | JStr list_id \<Rightarrow>
          if startswith list_id ''temp_list_'' then
            cons_result (key, ts) (sync_buckets api rest s)
          else
            (case sync_tasks api list_id ts s of
               (Some e, ts', s') \<Rightarrow> (Some e, (key, ts') # rest, s')
             | (None, ts', s') \<Rightarrow> cons_result (key, ts') (sync_buckets api rest s')))"

text \<open>
  \<open>sync_to_google\<close> returns nothing; the result is the exception that it raised, if any,
  and the state it left.
\<close>

definition sync_to_google :: "'r tasks_api \<Rightarrow> 'r task_service \<Rightarrow> exn option \<times> 'r task_service" where
  "sync_to_google api s =
     (if \<not> dirty s then (None, s)
      else
        (case sync_lists api (task_lists (data s)) [] s of
           (Some e, ls, m, s1) \<Rightarrow> (Some e, set_task_lists ls s1)
         | (None, ls, m, s1) \<Rightarrow>
             let s2 = set_task_lists ls s1;
                 s3 = set_tasks (migrate_buckets m (tasks (data s2))) s2
             in (case sync_buckets api (tasks (data s3)) s3 of
                   (Some e, bs, s4) \<Rightarrow> (Some e, set_tasks bs s4)
                 | (None, bs, s4) \<Rightarrow> (None, save_local_data (set_tasks bs s4)))))"

text \<open>The loop of \<open>sync_from_google\<close> over the lists that the server returned.\<close>

fun pull_tasks :: "'r tasks_api \<Rightarrow> jdict list \<Rightarrow> 'r task_service \<Rightarrow> exn option \<times> 'r task_service" where
  "pull_tasks api [] s = (None, s)"
| "pull_tasks api (task_list # rest) s =
     (case dict_item task_list ''id'' of
        Inl e \<Rightarrow> (Some e, s)
      | Inr list_id \<Rightarrow>
          (case call_list api (TasksList list_id) s of
             (Inl e, s') \<Rightarrow> (Some e, s')
           | (Inr items, s') \<Rightarrow>
               pull_tasks api rest (set_tasks (AList.update list_id items (tasks (data s'))) s')))"

definition sync_from_google :: "'r tasks_api \<Rightarrow> 'r task_service \<Rightarrow> exn option \<times> 'r task_service" where
  "sync_from_google api s =
     (case call_list api TasklistsList s of
        (Inl e, s') \<Rightarrow> (Some e, s')
      | (Inr items, s') \<Rightarrow>
          (case pull_tasks api items (set_tasks [] (set_task_lists items s')) of
             (Some e, s'') \<Rightarrow> (Some e, s'')
           | (None, s'') \<Rightarrow> (None, save_local_data s'')))"

text \<open>
  \<^verbatim>\<open>self.data['task_lists'][0]['id'] if self.data['task_lists'] else None\<close>
\<close>

definition get_default_task_list_id :: "'r task_service \<Rightarrow> exn + json option" where
  "get_default_task_list_id s =
     (case task_lists (data s) of
        [] \<Rightarrow> Inr None
      | l # ls \<Rightarrow> (case dict_item l ''id'' of Inl e \<Rightarrow> Inl e | Inr i \<Rightarrow> Inr (Some i)))"

text \<open>
  The constructor, run on the world \<open>w\<close> that it finds: only the server state, the log
  and the storage file of \<open>w\<close> are read. Acquiring the credentials and building the
  client are outside the model. An exception leaves no object.
\<close>

definition init :: "'r tasks_api \<Rightarrow> 'r task_service \<Rightarrow> exn + 'r task_service" where
  "init api w =
     (let s0 = w\<lparr>data := load_data w, dirty := False\<rparr>;
          r = (if task_lists (data s0) = [] then sync_from_google api s0 else (None, s0))
      in (case r of
            (Some e, s1) \<Rightarrow> Inl e
          | (None, s1) \<Rightarrow>
              (case get_default_task_list_id s1 of
                 Inl e \<Rightarrow> Inl e
               | Inr i \<Rightarrow> Inr (s1\<lparr>active_list_id := i\<rparr>))))"

section \<open>gtask_tui/task_service.py: the mock service\<close>

text \<open>
  \<^verbatim>\<open>s.replace(old, new)\<close> for a non-empty \<open>old\<close> (the only call has \<^verbatim>\<open>" (Completed)"\<close>):
  every occurrence, from the left, without overlap. An empty \<open>old\<close> is not modelled
  and leaves the string as it is.
\<close>

function str_replace :: "string \<Rightarrow> string \<Rightarrow> string \<Rightarrow> string" where
  "str_replace s old new =
     (if s = [] \<or> old = [] then s
      else if startswith s old then new @ str_replace (drop (length old) s) old new
      else hd s # str_replace (tl s) old new)"
  by pat_completeness auto
termination
  by (relation "measure (\<lambda>(s, old, new). length s)") auto

declare str_replace.simps [simp del]

text \<open>
  The body of the loop of the mock \<open>toggle_task_status\<close> on the matching task: the
  exception raised, if any, and the task as the body left it (the status is assigned
  before the title is read).
\<close>

definition mock_toggle :: "jdict \<Rightarrow> exn option \<times> jdict" where
  "mock_toggle task =
     (case dict_item task ''status'' of
        Inl e \<Rightarrow> (Some e, task)
      | Inr st \<Rightarrow>
          if st = JStr ''needsAction'' then
            (let t1 = dict_set task ''status'' (JStr ''completed'')
             in case dict_item t1 ''title'' of
                  Inl e \<Rightarrow> (Some e, t1)
                | Inr (JBool b) \<Rightarrow> (Some TypeError, t1)
                | Inr (JStr title) \<Rightarrow> (None, dict_set t1 ''title'' (JStr (title @ '' (Completed)''))))
          else
            (let t1 = dict_set task ''status'' (JStr ''needsAction'')
             in case dict_item t1 ''title'' of
                  Inl e \<Rightarrow> (Some e, t1)
                | Inr (JBool b) \<Rightarrow> (Some AttributeError, t1)
                | Inr (JStr title) \<Rightarrow>
                    (None, dict_set t1 ''title'' (JStr (str_replace title '' (Completed)'' [])))))"

fun mock_scan :: "string \<Rightarrow> jdict list \<Rightarrow> (exn + jdict option) \<times> jdict list" where
  "mock_scan task_id [] = (Inr None, [])"
| "mock_scan task_id (task # rest) =
     (case dict_item task ''id'' of
        Inl e \<Rightarrow> (Inl e, task # rest)
      | Inr i \<Rightarrow>
          if i = JStr task_id then
            (case mock_toggle task of
               (Some e, task') \<Rightarrow> (Inl e, task' # rest)
             | (None, task') \<Rightarrow> (Inr (Some task'), task' # rest))
          else (case mock_scan task_id rest of (r, rest') \<Rightarrow> (r, task # rest')))"

text \<open>
  The state of the mock service is the module dictionary \<open>MOCK_TASKS\<close>;
  \<^verbatim>\<open>MOCK_TASKS[list_id]\<close> raises \<open>KeyError\<close> for an unknown list.
\<close>

definition toggle_task_status_mock :: "(string \<times> jdict list) list \<Rightarrow> string \<Rightarrow> string
    \<Rightarrow> (exn + jdict option) \<times> (string \<times> jdict list) list" where
  "toggle_task_status_mock mock_tasks list_id task_id =
     (case map_of mock_tasks list_id of
        None \<Rightarrow> (Inl KeyError, mock_tasks)
      | Some ts \<Rightarrow>
          (case mock_scan task_id ts of
             (r, ts') \<Rightarrow> (r, AList.update list_id ts' mock_tasks)))"

section \<open>Example states and clients\<close>

text \<open>A cache with one list from the server and two tasks, nothing pending.\<close>

definition example_service :: "nat task_service" where
  "example_service =
     \<lparr>data = \<lparr>task_lists = [[(''id'', JStr ''L1''), (''title'', JStr ''Home'')]],
              tasks = [(JStr ''L1'',
                        [[(''id'', JStr ''a''), (''title'', JStr ''Buy milk''), (''status'', JStr ''needsAction'')],
                         [(''id'', JStr ''b''), (''title'', JStr ''Pay rent''), (''status'', JStr ''completed'')]])]\<rparr>,
      dirty = False, active_list_id = Some (JStr ''L1''), remote = 0, requests = [],
      storage_file = None, storage_writable = True\<rparr>"

text \<open>An empty cache, as the constructor leaves it when the server has no list.\<close>

definition empty_service :: "nat task_service" where
  "empty_service =
     \<lparr>data = \<lparr>task_lists = [], tasks = []\<rparr>,
      dirty = False, active_list_id = None, remote = 0, requests = [],
      storage_file = None, storage_writable = True\<rparr>"

text \<open>
  A server that accepts every call: it numbers the resources it creates
  (\<open>srv0\<close>, \<open>srv1\<close>, ...), returns the body of an update under the identifier of the
  call, and knows of every task only its identifier.
\<close>

definition counting_api :: "nat tasks_api" where
  "counting_api =
     \<lparr>execute = (\<lambda>n req.
        case req of
          TasklistsInsert body \<Rightarrow> (Inr (dict_set body ''id'' (JStr (''srv'' @ str_nat n))), Suc n)
        | TasksInsert list_id body \<Rightarrow>
            (Inr (dict_set (dict_set body ''id'' (JStr (''srv'' @ str_nat n))) ''status'' (JStr ''needsAction'')), Suc n)
        | TasksUpdate list_id task_id body \<Rightarrow> (Inr (dict_set body ''id'' (JStr task_id)), n)
        | TasksGet list_id task_id \<Rightarrow> (Inr [(''id'', JStr task_id)], n)
        | _ \<Rightarrow> (Inr [], n)),
      execute_list = (\<lambda>n req. (Inr [], n))\<rparr>"

text \<open>A server out of reach: every call raises.\<close>

definition failing_api :: "nat tasks_api" where
  "failing_api =
     \<lparr>execute = (\<lambda>n req. (Inl HttpError, n)),
      execute_list = (\<lambda>n req. (Inl HttpError, n))\<rparr>"

text \<open>
  A server that goes out of reach after its first call: the first call is answered as
  by the counting server, every later one raises.
\<close>

definition one_shot_api :: "nat tasks_api" where
  "one_shot_api =
     \<lparr>execute = (\<lambda>n req. if n = 0 then execute counting_api n req else (Inl HttpError, n)),
      execute_list = (\<lambda>n req. (Inl HttpError, n))\<rparr>"

text \<open>The mock data of \<open>gtask_tui\<close>, with fixed identifiers in place of the random ones.\<close>

definition mock_example :: "(string \<times> jdict list) list" where
  "mock_example =
     [(''list1'', [[(''id'', JStr ''u1''), (''title'', JStr ''Buy groceries''), (''status'', JStr ''needsAction'')],
                   [(''id'', JStr ''u2''), (''title'', JStr ''Pay bills (Completed)''), (''status'', JStr ''completed'')]]),
      (''list2'', [[(''id'', JStr ''u3''), (''title'', JStr ''Review Q3 report''), (''status'', JStr ''needsAction'')],
                   [(''id'', JStr ''u4''), (''title'', JStr ''Schedule team meeting''), (''status'', JStr ''needsAction'')]])]"

text \<open>
  The scenario of the specification: on an empty cache, add the list \<open>Work\<close> and then
  the task \<open>Ship\<close> under it, both while the clock reads 1.
\<close>

definition pending_service :: "nat task_service" where
  "pending_service = snd (add_task (snd (add_list empty_service 1 ''Work'')) 1 ''temp_list_1'' ''Ship'')"

text \<open>
  The scenario followed by a second new list, \<open>Play\<close>, added while the clock reads 2.
\<close>

definition two_lists_service :: "nat task_service" where
  "two_lists_service = snd (add_list pending_service 2 ''Play'')"

text \<open>
  The service constructed on an empty world with the counting server, and the scenario
  of the specification run on it.
\<close>

definition started_service :: "nat task_service" where
  "started_service = empty_service\<lparr>requests := [TasklistsList],
      storage_file := Some \<lparr>task_lists = [], tasks = []\<rparr>\<rparr>"

definition work_service :: "nat task_service" where
  "work_service = snd (add_task (snd (add_list started_service 1 ''Work'')) 1 ''temp_list_1'' ''Ship'')"

text \<open>
  \<open>dateutil\<close> on a string that is no ISO-8601 date: \<open>isoparse\<close> raises \<open>ValueError\<close>.
  \<open>isoparse\<close> is the bound method \<^verbatim>\<open>DEFAULT_ISOPARSER.isoparse\<close>, which has no attribute
  \<open>ParserError\<close> (the class lives in \<^verbatim>\<open>dateutil.parser\<close>).
\<close>

definition rejecting_dateutil :: dateutil where
  "rejecting_dateutil = \<lparr>isoparse = (\<lambda>date_str. Inl ValueError), isoparse_ParserError = None\<rparr>"

section \<open>Predicates of the properties\<close>

text \<open>
  \<open>only_server s s'\<close>: the state \<open>s'\<close> differs from \<open>s\<close> at most in the server state and
  in the log of the calls; the fields of \<open>self\<close> and the storage file are the same.
\<close>

definition only_server :: "'r task_service \<Rightarrow> 'r task_service \<Rightarrow> bool" where
  "only_server s s' =
     (data s' = data s \<and> dirty s' = dirty s \<and> active_list_id s' = active_list_id s
      \<and> storage_file s' = storage_file s \<and> storage_writable s' = storage_writable s)"

text \<open>
  Referential integrity of a snapshot: every key of the \<open>tasks\<close> dictionary is the
  \<open>id\<close> of a record of \<open>task_lists\<close>.
\<close>

definition ref_integrity :: "snapshot \<Rightarrow> bool" where
  "ref_integrity d = (\<forall>k \<in> fst ` set (tasks d). \<exists>l \<in> set (task_lists d). dict_get l ''id'' = Some k)"

definition has_list :: "jdict list \<Rightarrow> json \<Rightarrow> bool" where
  "has_list ls k = (\<exists>l \<in> set ls. dict_get l ''id'' = Some k)"

text \<open>
  The states that the public operations reach, for a client \<open>api\<close> and a date library
  \<open>lib\<close>: a constructed service whose storage file held a snapshot with referential
  integrity (or none); then any operation, whether it returns or raises, with two
  restrictions: \<open>add_task\<close> is given the identifier of a list of the snapshot, and
  \<open>sync_to_google\<close> counts when it returns without an exception.
\<close>

inductive reachable :: "'r tasks_api \<Rightarrow> dateutil \<Rightarrow> 'r task_service \<Rightarrow> bool"
  for api :: "'r tasks_api" and lib :: dateutil where
  constructed: "init api w = Inr s \<Longrightarrow> ref_integrity (load_data w) \<Longrightarrow> reachable api lib s"
| pulled: "reachable api lib s \<Longrightarrow> reachable api lib (snd (sync_from_google api s))"
| saved: "reachable api lib s \<Longrightarrow> reachable api lib (save_local_data s)"
| task_added: "reachable api lib s \<Longrightarrow> has_list (task_lists (data s)) (JStr list_id) \<Longrightarrow>
     reachable api lib (snd (add_task s now list_id title))"
| task_toggled: "reachable api lib s \<Longrightarrow> reachable api lib (snd (toggle_task_status s list_id task_id))"
| task_deleted: "reachable api lib s \<Longrightarrow> reachable api lib (snd (delete_task s list_id task_id))"
| task_renamed: "reachable api lib s \<Longrightarrow> reachable api lib (snd (rename_task s list_id task_id new_name))"
| task_dated: "reachable api lib s \<Longrightarrow> reachable api lib (snd (change_date_task lib s list_id task_id date_str))"
| task_detailed: "reachable api lib s \<Longrightarrow> reachable api lib (snd (change_detail_task s list_id task_id detail))"
| list_activated: "reachable api lib s \<Longrightarrow> reachable api lib (snd (set_active_list s list_id))"
| list_added: "reachable api lib s \<Longrightarrow> reachable api lib (snd (add_list s now list_name))"
| list_deleted: "reachable api lib s \<Longrightarrow> reachable api lib (snd (delete_list s list_id))"
| list_renamed: "reachable api lib s \<Longrightarrow> reachable api lib (snd (rename_list s list_id new_title))"
| synced: "reachable api lib s \<Longrightarrow> sync_to_google api s = (None, s') \<Longrightarrow> reachable api lib s'"

text \<open>
  A record with an identifier of the server: its \<open>id\<close> is a string without the prefix
  \<open>temp_\<close> (which the prefix \<open>temp_list_\<close> of the lists begins with).
\<close>

definition remote_id :: "jdict \<Rightarrow> bool" where
  "remote_id d = (case map_of d ''id'' of Some (JStr i) \<Rightarrow> \<not> startswith i ''temp_'' | _ \<Rightarrow> False)"

text \<open>The same for a key of the \<open>tasks\<close> dictionary.\<close>

definition remote_key :: "json \<Rightarrow> bool" where
  "remote_key k = (case k of JStr i \<Rightarrow> \<not> startswith i ''temp_'' | JBool b \<Rightarrow> False)"

text \<open>
  A record that the synchronisation can read: its \<open>id\<close> is a string, and it has a \<open>title\<close>
  when it is to be created on the server (not deleted, \<open>id\<close> with the given prefix).
\<close>

definition syncable :: "string \<Rightarrow> jdict \<Rightarrow> bool" where
  "syncable prefix d =
     (case map_of d ''id'' of
        Some (JStr i) \<Rightarrow> (\<not> truthy (dict_get d ''deleted'') \<and> startswith i prefix \<longrightarrow> map_of d ''title'' \<noteq> None)
      | _ \<Rightarrow> False)"

text \<open>
  A snapshot that the synchronisation can read: the lists and the tasks are such
  records, and the keys of the \<open>tasks\<close> dictionary are strings.
\<close>

definition syncable_snapshot :: "snapshot \<Rightarrow> bool" where
  "syncable_snapshot d =
     ((\<forall>l \<in> set (task_lists d). syncable ''temp_list_'' l)
      \<and> (\<forall>(k, ts) \<in> set (tasks d). (\<exists>list_id. k = JStr list_id) \<and> (\<forall>t \<in> set ts. syncable ''temp_'' t)))"

text \<open>A task that is deleted or carries an identifier of the server.\<close>

definition live_remote :: "jdict \<Rightarrow> bool" where
  "live_remote t = (truthy (dict_get t ''deleted'') \<or> remote_id t)"

text \<open>A list created in the cache and not deleted: its \<open>id\<close> has the prefix \<open>temp_list_\<close>.\<close>

definition new_list :: "jdict \<Rightarrow> bool" where
  "new_list l =
     (\<not> truthy (dict_get l ''deleted'')
      \<and> (case map_of l ''id'' of Some (JStr i) \<Rightarrow> startswith i ''temp_list_'' | _ \<Rightarrow> False))"

section \<open>Predicates of the migration of the provisional identifiers\<close>

subsection \<open>The calls of a pass\<close>

text \<open>The answer to an insert or an update carries an identifier of the server.\<close>

definition good_response :: "request \<Rightarrow> jdict \<Rightarrow> bool" where
  "good_response req d =
     (case req of
        TasklistsInsert body \<Rightarrow> remote_id d
      | TasksInsert list_id body \<Rightarrow> remote_id d
      | TasksUpdate list_id task_id body \<Rightarrow> remote_id d
      | _ \<Rightarrow> True)"

text \<open>
  The requests of a log, sent again from a state of the server: each one returns, with
  such an answer.
\<close>

fun replay_ok :: "'r tasks_api \<Rightarrow> 'r \<Rightarrow> request list \<Rightarrow> bool" where
  "replay_ok api r [] = True"
| "replay_ok api r (req # reqs) =
     (case execute api r req of
        (Inl e, r') \<Rightarrow> False
      | (Inr d, r') \<Rightarrow> good_response req d \<and> replay_ok api r' reqs)"

text \<open>
  Every call that was made between the states \<open>s\<close> and \<open>s'\<close> of the service succeeded: the
  requests logged since \<open>s\<close>, sent from the server state of \<open>s\<close>.
\<close>

definition calls_succeed :: "'r tasks_api \<Rightarrow> 'r task_service \<Rightarrow> 'r task_service \<Rightarrow> bool" where
  "calls_succeed api s s' = replay_ok api (remote s) (drop (length (requests s)) (requests s'))"

text \<open>The log of \<open>s'\<close> begins with the log of \<open>s\<close>.\<close>

definition extends :: "'r task_service \<Rightarrow> 'r task_service \<Rightarrow> bool" where
  "extends s s' = (take (length (requests s)) (requests s') = requests s)"

subsection \<open>The bodies of the loops\<close>

text \<open>
  The body of the inner loop of the third loop, for one task: the exception that left
  it, the element \<^verbatim>\<open>tasks[i]\<close> after it, and the state.
\<close>

definition sync_task :: "'r tasks_api \<Rightarrow> string \<Rightarrow> jdict \<Rightarrow> 'r task_service
    \<Rightarrow> exn option \<times> jdict \<times> 'r task_service" where
  "sync_task api list_id task s =
     (if truthy (dict_get task ''deleted'') then
        (case str_id task of
           Inl e \<Rightarrow> (Some e, task, s)
         | Inr task_id \<Rightarrow>
             if \<not> startswith task_id ''temp_'' then
               (case call api (TasksDelete list_id task_id) s of (res, s') \<Rightarrow> (None, task, s'))
             else (None, task, s))
      else
        (case str_id task of
           Inl e \<Rightarrow> (Some e, task, s)
         | Inr task_id \<Rightarrow>
             if startswith task_id ''temp_'' then
               (case dict_item task ''title'' of
                  Inl e \<Rightarrow> (Some e, task, s)
                | Inr title \<Rightarrow>
                    (case call api (TasksInsert list_id (new_task_body title task)) s of
                       (Inl e, s') \<Rightarrow> (Some e, task, s')
                     | (Inr new_task, s') \<Rightarrow> (None, new_task, s')))
             else
               (case call api (TasksGet list_id task_id) s of
                  (Inl e, s') \<Rightarrow> (None, task, s')
                | (Inr google_task, s') \<Rightarrow>
                    if task_differs google_task task then
                      (case call api (TasksUpdate list_id task_id task) s' of
                         (Inl e, s'') \<Rightarrow> (None, task, s'')
                       | (Inr updated_task, s'') \<Rightarrow> (None, updated_task, s''))
                    else (None, task, s'))))"

text \<open>
  The body of the first loop, for one list: the exception that left it, the element
  \<^verbatim>\<open>self.data['task_lists'][i]\<close> after it, \<open>new_list_id_map\<close> and the state.
\<close>

definition sync_list :: "'r tasks_api \<Rightarrow> jdict \<Rightarrow> (string \<times> json) list \<Rightarrow> 'r task_service
    \<Rightarrow> exn option \<times> jdict \<times> (string \<times> json) list \<times> 'r task_service" where
  "sync_list api task_list m s =
     (if truthy (dict_get task_list ''deleted'') then
        (case str_id task_list of
           Inl e \<Rightarrow> (Some e, task_list, m, s)
         | Inr list_id \<Rightarrow>
             if \<not> startswith list_id ''temp_list_'' then
               (case call api (TasklistsDelete list_id) s of (res, s') \<Rightarrow> (None, task_list, m, s'))
             else (None, task_list, m, s))
      else
        (case str_id task_list of
           Inl e \<Rightarrow> (Some e, task_list, m, s)
         | Inr old_id \<Rightarrow>
             if startswith old_id ''temp_list_'' then
               (case dict_item task_list ''title'' of
                  Inl e \<Rightarrow> (Some e, task_list, m, s)
                | Inr title \<Rightarrow>
                    (case call api (TasklistsInsert [(''title'', title)]) s of
                       (Inl e, s') \<Rightarrow> (Some e, task_list, m, s')
                     | (Inr created, s') \<Rightarrow>
                         (case dict_item created ''id'' of
                            Inl e \<Rightarrow> (Some e, created, m, s')
                          | Inr new_id \<Rightarrow> (None, created, AList.update old_id new_id m, s'))))
             else (None, task_list, m, s)))"

text \<open>The body of the third loop, for one bucket.\<close>

definition sync_bucket :: "'r tasks_api \<Rightarrow> json \<Rightarrow> jdict list \<Rightarrow> 'r task_service
    \<Rightarrow> exn option \<times> jdict list \<times> 'r task_service" where
  "sync_bucket api key ts s =
     (case key of
        JBool b \<Rightarrow> (Some AttributeError, ts, s)
      | JStr list_id \<Rightarrow>
          if startswith list_id ''temp_list_'' then (None, ts, s)
          else sync_tasks api list_id ts s)"

subsection \<open>The lists and the buckets before and after a pass\<close>

text \<open>The \<open>id\<close> fields of the new lists of a snapshot, in order.\<close>

definition provisional_ids :: "jdict list \<Rightarrow> json option list" where
  "provisional_ids ls = map (\<lambda>l. dict_get l ''id'') (filter new_list ls)"

text \<open>
  The \<open>id\<close> fields of the records that stand, after the pass, at the positions of the
  new lists.
\<close>

definition created_ids :: "jdict list \<Rightarrow> jdict list \<Rightarrow> json option list" where
  "created_ids ls ls' =
     map (\<lambda>(l, l'). dict_get l' ''id'') (filter (\<lambda>(l, l'). new_list l) (zip ls ls'))"

text \<open>Such a field is present and an identifier of the server.\<close>

definition remote_key_opt :: "json option \<Rightarrow> bool" where
  "remote_key_opt k = (case k of None \<Rightarrow> False | Some k' \<Rightarrow> remote_key k')"

text \<open>
  The entry that one new list adds to \<open>new_list_id_map\<close>: its provisional identifier and
  the \<open>id\<close> of the record that replaced it.
\<close>

definition id_pair :: "jdict \<Rightarrow> jdict \<Rightarrow> (string \<times> json) list" where
  "id_pair l l' =
     (if new_list l then
        (case str_id l of
           Inl e \<Rightarrow> []
         | Inr old_id \<Rightarrow> (case map_of l' ''id'' of None \<Rightarrow> [] | Some new_id \<Rightarrow> [(old_id, new_id)]))
      else [])"

text \<open>The entries of all the lists, in the order of the loop.\<close>

fun id_pairs :: "jdict list \<Rightarrow> jdict list \<Rightarrow> (string \<times> json) list" where
  "id_pairs (l # ls) (l' # ls') = id_pair l l' @ id_pairs ls ls'"
| "id_pairs [] ls' = []"
| "id_pairs (l # ls) [] = []"

text \<open>
  The record \<open>l'\<close> is an answer of the server to the insertion of a list with the title
  of \<open>l\<close>.
\<close>

definition list_created :: "'r tasks_api \<Rightarrow> jdict \<Rightarrow> jdict \<Rightarrow> bool" where
  "list_created api l l' =
     (\<exists>r title. dict_item l ''title'' = Inr title
        \<and> fst (execute api r (TasklistsInsert [(''title'', title)])) = Inr l')"

text \<open>
  What the third loop does to one task in the bucket of \<open>list_id\<close>: a deleted task stays
  as it is; a task created in the cache is replaced by an answer of the server to its
  insertion into that list; a task of the server stays, or is replaced by an answer to
  its update.
\<close>

definition task_synced :: "'r tasks_api \<Rightarrow> string \<Rightarrow> jdict \<Rightarrow> jdict \<Rightarrow> bool" where
  "task_synced api list_id t t' =
     (if truthy (dict_get t ''deleted'') then t' = t
      else
        (case str_id t of
           Inl e \<Rightarrow> False
         | Inr task_id \<Rightarrow>
             if startswith task_id ''temp_'' then
               (\<exists>r title. dict_item t ''title'' = Inr title
                  \<and> fst (execute api r (TasksInsert list_id (new_task_body title t))) = Inr t')
             else
               (t' = t \<or> (\<exists>r. fst (execute api r (TasksUpdate list_id task_id t)) = Inr t'))))"

text \<open>
  What the first loop does to one list: a new list is replaced by the record of the
  server, which has an \<open>id\<close>; every other record stays.
\<close>

definition list_replaced :: "'r tasks_api \<Rightarrow> jdict \<Rightarrow> jdict \<Rightarrow> bool" where
  "list_replaced api l l' =
     (if new_list l then list_created api l l' \<and> dict_get l' ''id'' \<noteq> None else l' = l)"

text \<open>What the third loop does to one bucket: it skips a provisional key.\<close>

definition bucket_synced :: "'r tasks_api \<Rightarrow> json \<Rightarrow> jdict list \<Rightarrow> jdict list \<Rightarrow> bool" where
  "bucket_synced api k ts ts' =
     (case k of
        JBool b \<Rightarrow> False
      | JStr list_id \<Rightarrow>
          if startswith list_id ''temp_list_'' then ts' = ts
          else list_all2 (task_synced api list_id) ts ts')"

text \<open>\<^verbatim>\<open>new_list_id_map[old_id] = new_list['id']\<close>\<close>

definition id_update :: "string \<times> json \<Rightarrow> (string \<times> json) list \<Rightarrow> (string \<times> json) list" where
  "id_update p m = AList.update (fst p) (snd p) m"

text \<open>
  The bucket of a new list \<open>l\<close> after the pass, \<open>l'\<close> being the record that replaced it:
  the provisional identifier is no key any more, and the tasks that were under it are
  under the \<open>id\<close> of \<open>l'\<close>, related one by one by \<open>R\<close>.
\<close>

definition bucket_moved :: "(string \<Rightarrow> jdict \<Rightarrow> jdict \<Rightarrow> bool) \<Rightarrow> (json \<times> jdict list) list
    \<Rightarrow> (json \<times> jdict list) list \<Rightarrow> jdict \<Rightarrow> jdict \<Rightarrow> bool" where
  "bucket_moved R bs bs' l l' =
     (case dict_get l ''id'' of
        Some (JStr old_id) \<Rightarrow>
          (case dict_get l' ''id'' of
             Some (JStr new_id) \<Rightarrow>
               map_of bs' (JStr old_id) = None
               \<and> (case map_of bs (JStr old_id) of
                    None \<Rightarrow> True
                  | Some ts \<Rightarrow>
                      (case map_of bs' (JStr new_id) of
                         None \<Rightarrow> False
                       | Some ts' \<Rightarrow> list_all2 (R new_id) ts ts'))
           | _ \<Rightarrow> False)
      | _ \<Rightarrow> False)"

text \<open>
  A list before and after a pass that completes: a new list is replaced by the record of
  the server and its bucket has moved; every other record is unchanged.
\<close>

definition list_rekeyed :: "'r tasks_api \<Rightarrow> (json \<times> jdict list) list \<Rightarrow> (json \<times> jdict list) list
    \<Rightarrow> jdict \<Rightarrow> jdict \<Rightarrow> bool" where
  "list_rekeyed api bs bs' l l' =
     (if new_list l then list_created api l l' \<and> bucket_moved (task_synced api) bs bs' l l'
      else l' = l)"

text \<open>
  Pairs of a provisional identifier and an identifier of the server, no identifier
  twice.
\<close>

definition fresh_ids :: "(string \<times> json) list \<Rightarrow> bool" where
  "fresh_ids ps = (distinct (map fst ps) \<and> distinct (map snd ps)
      \<and> (\<forall>p \<in> set ps. startswith (fst p) ''temp_list_'' \<and> remote_key (snd p)))"

text \<open>A task that was deleted, or whose record after the pass has an identifier of the server.\<close>

definition kept_or_remote :: "jdict \<Rightarrow> jdict \<Rightarrow> bool" where
  "kept_or_remote t t' = (truthy (dict_get t ''deleted'') \<or> remote_id t')"

text \<open>Both, for a task of the bucket of \<open>list_id\<close>.\<close>

definition task_migrated :: "'r tasks_api \<Rightarrow> string \<Rightarrow> jdict \<Rightarrow> jdict \<Rightarrow> bool" where
  "task_migrated api list_id t t' = (task_synced api list_id t t' \<and> kept_or_remote t t')"

text \<open>
  A list before and after a pass whose calls all succeeded: as \<open>list_rekeyed\<close>, and the
  new record and the tasks that are not deleted have identifiers of the server.
\<close>

definition list_migrated :: "'r tasks_api \<Rightarrow> (json \<times> jdict list) list \<Rightarrow> (json \<times> jdict list) list
    \<Rightarrow> jdict \<Rightarrow> jdict \<Rightarrow> bool" where
  "list_migrated api bs bs' l l' =
     (if new_list l
      then list_created api l l' \<and> remote_id l' \<and> bucket_moved (task_migrated api) bs bs' l l'
      else l' = l)"

subsection \<open>A scenario with two new lists\<close>

text \<open>
  The scenario continued on the constructed service: a second list \<open>Play\<close> with the task
  \<open>Rest\<close> (clock 2), and a second task \<open>Plan\<close> of \<open>Work\<close> (clock 3).
\<close>

definition busy_service :: "nat task_service" where
  "busy_service =
     snd (add_task (snd (add_task (snd (add_list work_service 2 ''Play'')) 2 ''temp_list_2'' ''Rest''))
            3 ''temp_list_1'' ''Plan'')"

text \<open>The state that \<open>sync_to_google\<close> leaves it in with the counting server.\<close>

definition busy_synced :: "nat task_service" where
  "busy_synced =
     \<lparr>data = \<lparr>task_lists = [[(''title'', JStr ''Work''), (''id'', JStr ''srv0'')],
                            [(''title'', JStr ''Play''), (''id'', JStr ''srv1'')]],
              tasks = [(JStr ''srv0'',
                        [[(''title'', JStr ''Ship''), (''id'', JStr ''srv2''), (''status'', JStr ''needsAction'')],
                         [(''title'', JStr ''Plan''), (''id'', JStr ''srv3''), (''status'', JStr ''needsAction'')]]),
                       (JStr ''srv1'',
                        [[(''title'', JStr ''Rest''), (''id'', JStr ''srv4''), (''status'', JStr ''needsAction'')]])]\<rparr>,
      dirty = False, active_list_id = None, remote = 5,
      requests = [TasklistsList, TasklistsInsert [(''title'', JStr ''Work'')],
                  TasklistsInsert [(''title'', JStr ''Play'')],
                  TasksInsert ''srv0'' [(''title'', JStr ''Ship'')],
                  TasksInsert ''srv0'' [(''title'', JStr ''Plan'')],
                  TasksInsert ''srv1'' [(''title'', JStr ''Rest'')]],
      storage_file = Some \<lparr>task_lists = [[(''title'', JStr ''Work''), (''id'', JStr ''srv0'')],
                            [(''title'', JStr ''Play''), (''id'', JStr ''srv1'')]],
              tasks = [(JStr ''srv0'',
                        [[(''title'', JStr ''Ship''), (''id'', JStr ''srv2''), (''status'', JStr ''needsAction'')],
                         [(''title'', JStr ''Plan''), (''id'', JStr ''srv3''), (''status'', JStr ''needsAction'')]]),
                       (JStr ''srv1'',
                        [[(''title'', JStr ''Rest''), (''id'', JStr ''srv4''), (''status'', JStr ''needsAction'')]])]\<rparr>,
      storage_writable = True\<rparr>"

section \<open>Properties of the operations on the cache\<close>

subsection \<open>Dictionaries, buckets and the scan\<close>

lemma dict_get_set: "dict_get (dict_set d k v) k' = (if k' = k then Some v else dict_get d k')"
  by (simp add: dict_get_def dict_set_def update_conv')

lemma bucket_set_bucket: "bucket (set_bucket l ts s) l' = (if l' = l then ts else bucket s l')"
  by (simp add: bucket_def set_bucket_def update_conv')

lemma bucket_dirty [simp]: "bucket (s\<lparr>dirty := b\<rparr>) l = bucket s l"
  by (simp add: bucket_def)

text \<open>A scan that finds a record finds it whatever the update is.\<close>

lemma scan_records_found:
  "scan_records f w rs = Inr (Some (u, rs')) \<Longrightarrow>
   \<exists>r0. scan_records (\<lambda>t. t) w rs = Inr (Some (r0, rs)) \<and> u = f r0"
  by (induction rs arbitrary: rs') (auto split: option.splits if_splits sum.splits)

text \<open>After an update that keeps the identifiers, a second scan stops at the same record.\<close>

lemma scan_records_id_again:
  "scan_records f w rs = Inr (Some (u, rs')) \<Longrightarrow> (\<And>r. map_of (f r) ''id'' = map_of r ''id'') \<Longrightarrow>
   scan_records (\<lambda>t. t) w rs' = Inr (Some (u, rs'))"
  by (induction rs arbitrary: rs') (auto split: option.splits if_splits sum.splits)

subsection \<open>Reading a task that was deleted\<close>

text \<open>
  C10. After \<open>delete_task\<close> has returned \<open>True\<close>, \<open>get_task\<close> with the same identifiers
  returns the record that it returned before, now with \<open>deleted = True\<close>, and not
  \<open>None\<close>; the bulk reads filter: that record is not in \<open>get_tasks_for_list\<close>, and no
  record returned by \<open>get_tasks_for_list\<close> or \<open>get_task_lists\<close> has a truthy \<open>deleted\<close>.
\<close>

theorem get_task_after_delete_task:
  assumes "delete_task s list_id task_id = (Inr (Some True), s')"
  shows "\<exists>t0. get_task s list_id task_id = Inr (Some t0)
           \<and> get_task s' list_id task_id = Inr (Some (dict_set t0 ''deleted'' (JBool True)))
           \<and> dict_get (dict_set t0 ''deleted'' (JBool True)) ''deleted'' = Some (JBool True)
           \<and> dict_set t0 ''deleted'' (JBool True) \<notin> set (get_tasks_for_list s' list_id)
           \<and> (\<forall>u \<in> set (get_tasks_for_list s' list_id). \<not> truthy (dict_get u ''deleted''))
           \<and> (\<forall>l \<in> set (get_task_lists s'). \<not> truthy (dict_get l ''deleted''))"
proof -
  let ?f = "\<lambda>t. dict_set t ''deleted'' (JBool True)"
  from assms have ne: "list_id \<noteq> []"
    by (auto simp: delete_task_def split: if_splits)
  from assms ne obtain t ts where
    sc: "scan_records ?f task_id (bucket s list_id) = Inr (Some (t, ts))"
    and s': "s' = (set_bucket list_id ts s)\<lparr>dirty := True\<rparr>"
    by (auto simp: delete_task_def split: sum.splits option.splits)
  from scan_records_found [OF sc] obtain t0 where
    t0: "scan_records (\<lambda>t. t) task_id (bucket s list_id) = Inr (Some (t0, bucket s list_id))"
    and t: "t = ?f t0" by blast
  have idk: "\<And>r. map_of (?f r) ''id'' = map_of r ''id''"
    by (simp add: dict_set_def update_conv')
  from scan_records_id_again [OF sc idk]
  have again: "scan_records (\<lambda>t. t) task_id ts = Inr (Some (t, ts))" .
  have b': "bucket s' list_id = ts"
    by (simp add: s' bucket_set_bucket)
  have g0: "get_task s list_id task_id = Inr (Some t0)"
    using ne t0 by (simp add: get_task_def)
  have g1: "get_task s' list_id task_id = Inr (Some (?f t0))"
    using ne again b' t by (simp add: get_task_def)
  have del: "dict_get (?f t0) ''deleted'' = Some (JBool True)"
    by (simp add: dict_get_set)
  have flt: "get_tasks_for_list s' list_id = filter not_deleted ts"
    using ne b' by (simp add: get_tasks_for_list_def bucket_def)
  have notin: "?f t0 \<notin> set (get_tasks_for_list s' list_id)"
    using del by (simp add: flt not_deleted_def)
  have all: "\<forall>u \<in> set (get_tasks_for_list s' list_id). \<not> truthy (dict_get u ''deleted'')"
    by (simp add: flt not_deleted_def)
  have lists: "\<forall>l \<in> set (get_task_lists s'). \<not> truthy (dict_get l ''deleted'')"
    by (simp add: get_task_lists_def not_deleted_def)
  from g0 g1 del notin all lists show ?thesis by blast
qed

text \<open>The theorem at the second task of the example cache.\<close>

theorem get_task_after_delete_task_witness:
  "fst (delete_task example_service ''L1'' ''b'') = Inr (Some True)
   \<and> get_task (snd (delete_task example_service ''L1'' ''b'')) ''L1'' ''b''
       = Inr (Some [(''id'', JStr ''b''), (''title'', JStr ''Pay rent''),
                    (''status'', JStr ''completed''), (''deleted'', JBool True)])
   \<and> get_tasks_for_list (snd (delete_task example_service ''L1'' ''b'')) ''L1''
       = [[(''id'', JStr ''a''), (''title'', JStr ''Buy milk''), (''status'', JStr ''needsAction'')]]"
proof -
  have h1: "fst (delete_task example_service ''L1'' ''b'') = Inr (Some True)"
    by (simp add: delete_task_def example_service_def bucket_def dict_set_def)
  then have h: "delete_task example_service ''L1'' ''b''
             = (Inr (Some True), snd (delete_task example_service ''L1'' ''b''))"
    by (metis prod.collapse)
  have g: "get_task example_service ''L1'' ''b''
             = Inr (Some [(''id'', JStr ''b''), (''title'', JStr ''Pay rent''), (''status'', JStr ''completed'')])"
    by (simp add: get_task_def example_service_def bucket_def)
  from get_task_after_delete_task [OF h] g
  have g1: "get_task (snd (delete_task example_service ''L1'' ''b'')) ''L1'' ''b''
       = Inr (Some [(''id'', JStr ''b''), (''title'', JStr ''Pay rent''),
                    (''status'', JStr ''completed''), (''deleted'', JBool True)])"
    by (auto simp: dict_set_def)
  have l: "get_tasks_for_list (snd (delete_task example_service ''L1'' ''b'')) ''L1''
       = [[(''id'', JStr ''a''), (''title'', JStr ''Buy milk''), (''status'', JStr ''needsAction'')]]"
    by (simp add: get_tasks_for_list_def delete_task_def example_service_def bucket_def
        set_bucket_def dict_set_def not_deleted_def dict_get_def)
  from h1 g1 l show ?thesis by blast
qed

subsection \<open>Toggling a task twice\<close>

lemma scan_records_apply:
  "scan_records (\<lambda>t. t) w rs = Inr (Some (t0, rs0)) \<Longrightarrow>
   \<exists>rs'. scan_records f w rs = Inr (Some (f t0, rs'))"
  by (induction rs arbitrary: rs0) (auto split: option.splits if_splits sum.splits)

lemma scan_records_compose:
  "scan_records f w rs = Inr (Some (u, rs')) \<Longrightarrow> (\<And>r. map_of (f r) ''id'' = map_of r ''id'') \<Longrightarrow>
   scan_records g w rs' = scan_records (\<lambda>r. g (f r)) w rs"
  by (induction rs arbitrary: rs') (auto split: option.splits if_splits sum.splits)

lemma scan_records_fixed:
  "scan_records (\<lambda>t. t) w rs = Inr (Some (t0, rs0)) \<Longrightarrow> f t0 = t0 \<Longrightarrow>
   scan_records f w rs = Inr (Some (t0, rs))"
  by (induction rs arbitrary: rs0) (auto split: option.splits if_splits sum.splits)

lemma scan_records_rel:
  "scan_records f w rs = Inr (Some (u, rs')) \<Longrightarrow> (\<And>r. P r (f r)) \<Longrightarrow> (\<And>r. P r r) \<Longrightarrow>
   list_all2 P rs rs'"
  by (induction rs arbitrary: rs') (auto split: option.splits if_splits sum.splits intro: list_all2_refl)

lemma scan_records_nonempty: "scan_records f w rs = Inr (Some x) \<Longrightarrow> rs \<noteq> []"
  by auto

lemma bucket_nonempty: "bucket s l \<noteq> [] \<Longrightarrow> map_of (tasks (data s)) (JStr l) = Some (bucket s l)"
  by (auto simp: bucket_def split: option.splits)

lemma toggle_status_id: "map_of (toggle_status r) ''id'' = map_of r ''id''"
  by (simp add: toggle_status_def dict_set_def update_conv')

lemma toggle_status_twice:
  "dict_get t ''status'' = Some (JStr ''needsAction'') \<Longrightarrow> toggle_status (toggle_status t) = t"
  by (simp add: toggle_status_def dict_get_set) (simp add: dict_set_def dict_get_def update_triv)

text \<open>
  C9, for the cache engine of \<open>tasks_tui\<close>. When \<open>get_task\<close> finds a task whose status is
  \<open>needsAction\<close>, a first \<open>toggle_task_status\<close> returns that task with the status
  \<open>completed\<close> and the same title; in the snapshot the task lists and the bucket keys
  are the same and every record of every bucket agrees with the old one on every field
  but \<open>status\<close>. A second toggle returns the task as it was and the snapshot is again
  the one before the first toggle.
\<close>

theorem toggle_task_status_twice:
  assumes g: "get_task s list_id task_id = Inr (Some t)"
    and st: "dict_get t ''status'' = Some (JStr ''needsAction'')"
  shows "\<exists>s1 s2.
           toggle_task_status s list_id task_id = (Inr (Some (dict_set t ''status'' (JStr ''completed''))), s1)
         \<and> dict_get (dict_set t ''status'' (JStr ''completed'')) ''title'' = dict_get t ''title''
         \<and> task_lists (data s1) = task_lists (data s)
         \<and> map fst (tasks (data s1)) = map fst (tasks (data s))
         \<and> (\<forall>l. list_all2 (\<lambda>a b. \<forall>k. k \<noteq> ''status'' \<longrightarrow> dict_get b k = dict_get a k) (bucket s l) (bucket s1 l))
         \<and> toggle_task_status s1 list_id task_id = (Inr (Some t), s2)
         \<and> data s2 = data s"
proof -
  from g have ne: "list_id \<noteq> []"
    by (auto simp: get_task_def split: if_splits)
  from g ne obtain rs0 where
    sc0: "scan_records (\<lambda>t. t) task_id (bucket s list_id) = Inr (Some (t, rs0))"
    by (auto simp: get_task_def split: sum.splits option.splits)
  from scan_records_apply [OF sc0] obtain ts1 where
    sc1: "scan_records toggle_status task_id (bucket s list_id) = Inr (Some (toggle_status t, ts1))"
    by blast
  define s1 where "s1 = (set_bucket list_id ts1 s)\<lparr>dirty := True\<rparr>"
  define s2 where "s2 = (set_bucket list_id (bucket s list_id) s1)\<lparr>dirty := True\<rparr>"
  have t1: "toggle_status t = dict_set t ''status'' (JStr ''completed'')"
    using st by (simp add: toggle_status_def)
  have tog1: "toggle_task_status s list_id task_id = (Inr (Some (dict_set t ''status'' (JStr ''completed''))), s1)"
    using ne sc1 t1 by (simp add: toggle_task_status_def update_task_def s1_def)
  have title: "dict_get (dict_set t ''status'' (JStr ''completed'')) ''title'' = dict_get t ''title''"
    by (simp add: dict_get_set)
  have lists: "task_lists (data s1) = task_lists (data s)"
    by (simp add: s1_def set_bucket_def)
  have some: "map_of (tasks (data s)) (JStr list_id) = Some (bucket s list_id)"
    using sc0 by (intro bucket_nonempty) auto
  have keys: "map fst (tasks (data s1)) = map fst (tasks (data s))"
    using some by (simp add: s1_def set_bucket_def update_keys) (metis domI dom_map_of_conv_image_fst)
  have b1: "bucket s1 list_id = ts1"
    by (simp add: s1_def bucket_set_bucket)
  have rel: "list_all2 (\<lambda>a b. \<forall>k. k \<noteq> ''status'' \<longrightarrow> dict_get b k = dict_get a k) (bucket s l) (bucket s1 l)" for l
  proof (cases "l = list_id")
    case True
    from scan_records_rel [OF sc1, of "\<lambda>a b. \<forall>k. k \<noteq> ''status'' \<longrightarrow> dict_get b k = dict_get a k"]
    show ?thesis using True b1 by (simp add: toggle_status_def dict_get_set)
  next
    case False
    then have "bucket s1 l = bucket s l" by (simp add: s1_def bucket_set_bucket)
    then show ?thesis by (simp add: list_all2_refl)
  qed
  have "scan_records toggle_status task_id ts1
          = scan_records (\<lambda>r. toggle_status (toggle_status r)) task_id (bucket s list_id)"
    by (rule scan_records_compose [OF sc1 toggle_status_id])
  also have "\<dots> = Inr (Some (t, bucket s list_id))"
    using sc0 toggle_status_twice [OF st]
    by (rule scan_records_fixed [where f = "\<lambda>r. toggle_status (toggle_status r)"])
  finally have sc2: "scan_records toggle_status task_id ts1 = Inr (Some (t, bucket s list_id))" .
  have tog2: "toggle_task_status s1 list_id task_id = (Inr (Some t), s2)"
    using ne sc2 b1 by (simp add: toggle_task_status_def update_task_def s2_def)
  have "tasks (data s2) = tasks (data s)"
    using some by (simp add: s2_def s1_def set_bucket_def update_triv)
  then have restored: "data s2 = data s"
    by (simp add: s2_def s1_def set_bucket_def)
  from tog1 title lists keys rel tog2 restored show ?thesis by blast
qed

text \<open>The theorem at the first task of the example cache.\<close>

theorem toggle_task_status_twice_witness:
  "get_task example_service ''L1'' ''a''
     = Inr (Some [(''id'', JStr ''a''), (''title'', JStr ''Buy milk''), (''status'', JStr ''needsAction'')])
   \<and> fst (toggle_task_status example_service ''L1'' ''a'')
     = Inr (Some [(''id'', JStr ''a''), (''title'', JStr ''Buy milk''), (''status'', JStr ''completed'')])
   \<and> fst (toggle_task_status (snd (toggle_task_status example_service ''L1'' ''a'')) ''L1'' ''a'')
     = Inr (Some [(''id'', JStr ''a''), (''title'', JStr ''Buy milk''), (''status'', JStr ''needsAction'')])"
proof -
  let ?t = "[(''id'', JStr ''a''), (''title'', JStr ''Buy milk''), (''status'', JStr ''needsAction'')]"
  have g: "get_task example_service ''L1'' ''a'' = Inr (Some ?t)"
    by (simp add: get_task_def example_service_def bucket_def)
  have st: "dict_get ?t ''status'' = Some (JStr ''needsAction'')"
    by (simp add: dict_get_def)
  from toggle_task_status_twice [OF g st] g show ?thesis
    by (auto simp: dict_set_def)
qed

text \<open>
  The mock service of \<open>gtask_tui\<close> is different: its toggle of the first mock task
  (\<open>needsAction\<close>, titled \<open>Buy groceries\<close>) returns it with the title
  \<open>Buy groceries (Completed)\<close>.
\<close>

theorem toggle_task_status_mock_changes_title:
  "fst (toggle_task_status_mock mock_example ''list1'' ''u1'')
     = Inr (Some [(''id'', JStr ''u1''), (''title'', JStr ''Buy groceries (Completed)''),
                  (''status'', JStr ''completed'')])
   \<and> map_of mock_example ''list1''
     = Some [[(''id'', JStr ''u1''), (''title'', JStr ''Buy groceries''), (''status'', JStr ''needsAction'')],
             [(''id'', JStr ''u2''), (''title'', JStr ''Pay bills (Completed)''), (''status'', JStr ''completed'')]]"
  by (simp add: toggle_task_status_mock_def mock_example_def mock_toggle_def dict_item_def dict_set_def)

section \<open>Properties of the synchronisation\<close>

subsection \<open>The scenario evaluated\<close>

lemma str_nat_0: "str_nat 0 = ''0''"
  by (simp add: str_nat.simps [of 0] digit_char_def)

lemma str_nat_1: "str_nat (Suc 0) = ''1''"
  by (simp add: str_nat.simps [of "Suc 0"] digit_char_def)

lemma str_int_1: "str_int 1 = ''1''"
  by (simp add: str_int_def str_nat_1)

lemma pending_service_eq:
  "pending_service =
     \<lparr>data = \<lparr>task_lists = [[(''title'', JStr ''Work''), (''id'', JStr ''temp_list_1'')]],
              tasks = [(JStr ''temp_list_1'',
                        [[(''title'', JStr ''Ship''), (''id'', JStr ''temp_1''), (''status'', JStr ''needsAction'')]])]\<rparr>,
      dirty = True, active_list_id = None, remote = 0, requests = [],
      storage_file = None, storage_writable = True\<rparr>"
  by (simp add: pending_service_def add_task_def add_list_def empty_service_def str_int_1
      set_task_lists_def set_bucket_def bucket_def Let_def)

lemma sync_pending:
  "sync_to_google counting_api pending_service =
    (None,
  \<lparr>data =
     \<lparr>task_lists = [[(''title'', JStr ''Work''), (''id'', JStr ''srv0'')]],
        tasks =
          [(JStr ''srv0'',
            [[(''title'', JStr ''Ship''), (''id'', JStr ''srv1''),
              (''status'', JStr ''needsAction'')]])]\<rparr>,
     dirty = False, active_list_id = None, remote = 2,
     requests =
       [TasklistsInsert [(''title'', JStr ''Work'')],
        TasksInsert ''srv0'' [(''title'', JStr ''Ship'')]],
     storage_file =
       Some
        \<lparr>task_lists =
           [[(''title'', JStr ''Work''), (''id'', JStr ''srv0'')]],
           tasks =
             [(JStr ''srv0'',
               [[(''title'', JStr ''Ship''), (''id'', JStr ''srv1''),
                 (''status'', JStr ''needsAction'')]])]\<rparr>,
     storage_writable = True\<rparr>)"
  by (simp add: pending_service_eq sync_to_google_def counting_api_def call_def dict_get_def
      str_id_def startswith_def dict_item_def dict_set_def cons_result_def set_task_lists_def
      set_tasks_def new_task_body_def migrate_step_def save_local_data_def save_data_def str_nat_0 str_nat_1)

subsection \<open>Synchronising twice\<close>

text \<open>
  C5. When \<open>sync_to_google\<close> has returned without an exception, \<open>dirty\<close> is false, and
  a second \<open>sync_to_google\<close> right after it (with any client) returns the same state:
  the snapshot is the same, and so is the log of the calls on the server, so that the
  second run has created nothing.
\<close>

theorem sync_to_google_twice:
  assumes "sync_to_google api s = (None, s')"
  shows "\<not> dirty s'
       \<and> sync_to_google api' s' = (None, s')
       \<and> data (snd (sync_to_google api' s')) = data s'
       \<and> requests (snd (sync_to_google api' s')) = requests s'"
proof -
  have d: "\<not> dirty s'"
    using assms
    by (auto simp: sync_to_google_def save_local_data_def Let_def split: if_splits prod.splits option.splits)
  then have "sync_to_google api' s' = (None, s')"
    by (simp add: sync_to_google_def)
  with d show ?thesis by simp
qed

text \<open>The theorem at the scenario: the second run adds no call to the two of the first.\<close>

theorem sync_to_google_twice_witness:
  "fst (sync_to_google counting_api pending_service) = None
   \<and> sync_to_google counting_api (snd (sync_to_google counting_api pending_service))
       = (None, snd (sync_to_google counting_api pending_service))
   \<and> requests (snd (sync_to_google counting_api (snd (sync_to_google counting_api pending_service))))
       = [TasklistsInsert [(''title'', JStr ''Work'')], TasksInsert ''srv0'' [(''title'', JStr ''Ship'')]]"
proof -
  have h1: "fst (sync_to_google counting_api pending_service) = None"
    by (simp add: sync_pending)
  then have h: "sync_to_google counting_api pending_service
                  = (None, snd (sync_to_google counting_api pending_service))"
    by (metis prod.collapse)
  have r: "requests (snd (sync_to_google counting_api pending_service))
       = [TasklistsInsert [(''title'', JStr ''Work'')], TasksInsert ''srv0'' [(''title'', JStr ''Ship'')]]"
    by (simp add: sync_pending)
  from sync_to_google_twice [OF h, of counting_api] h1 r show ?thesis by simp
qed

subsection \<open>The loops touch only the server\<close>

lemma only_server_refl [simp]: "only_server s s"
  by (simp add: only_server_def)

lemma only_server_trans: "only_server s s' \<Longrightarrow> only_server s' s'' \<Longrightarrow> only_server s s''"
  by (simp add: only_server_def)

lemma only_server_call: "call api req s = (res, s') \<Longrightarrow> only_server s s'"
  by (auto simp: call_def only_server_def split: prod.splits)

lemma only_server_call_list: "call_list api req s = (res, s') \<Longrightarrow> only_server s s'"
  by (auto simp: call_list_def only_server_def split: prod.splits)

lemma cons_result_eq:
  "cons_result x r = (e, xs, s) \<longleftrightarrow> (\<exists>ys. r = (e, ys, s) \<and> xs = x # ys)"
  by (cases r) (auto simp: cons_result_def)

lemma only_server_sync_lists:
  "sync_lists api ls m s = (e, ls', m', s') \<Longrightarrow> only_server s s'"
proof (induction ls arbitrary: m s e ls' m' s')
  case Nil
  then show ?case by simp
next
  case (Cons l ls)
  show ?case
    using Cons.prems
    by (auto simp: cons_result_eq split: if_splits sum.splits prod.splits
        dest!: Cons.IH only_server_call intro: only_server_trans)
qed

lemma only_server_sync_tasks:
  "sync_tasks api lid ts s = (e, ts', s') \<Longrightarrow> only_server s s'"
proof (induction ts arbitrary: s e ts' s')
  case Nil
  then show ?case by simp
next
  case (Cons t ts)
  show ?case
    using Cons.prems
    by (auto simp: cons_result_eq split: if_splits sum.splits prod.splits
        dest!: Cons.IH only_server_call intro: only_server_trans)
qed

lemma only_server_sync_buckets:
  "sync_buckets api bs s = (e, bs', s') \<Longrightarrow> only_server s s'"
proof (induction bs arbitrary: s e bs' s')
  case Nil
  then show ?case by simp
next
  case (Cons b bs)
  obtain key ts where b: "b = (key, ts)" by (cases b)
  show ?case
    using Cons.prems unfolding b
    by (auto simp: cons_result_eq split: if_splits json.splits prod.splits option.splits
        dest!: Cons.IH only_server_sync_tasks intro: only_server_trans)
qed

section \<open>Persistence and the dirty flag\<close>

subsection \<open>What the operations on the cache write\<close>

lemma update_task_frame: "(snd (update_task f s list_id task_id))\<lparr>data := data s, dirty := dirty s\<rparr> = s"
  by (simp add: update_task_def set_bucket_def split: sum.splits option.splits prod.splits)

lemma update_task_dirty: "snd (update_task f s list_id task_id) = s \<or> dirty (snd (update_task f s list_id task_id))"
  by (simp add: update_task_def split: sum.splits option.splits prod.splits)

lemma change_date_task_frame:
  "(snd (change_date_task lib s list_id task_id date_str))\<lparr>data := data s, dirty := dirty s\<rparr> = s"
  by (auto simp: change_date_task_def change_date_task_try_def set_bucket_def
      split: sum.splits option.splits prod.splits if_splits)

lemma change_date_task_dirty:
  "snd (change_date_task lib s list_id task_id date_str) = s
   \<or> dirty (snd (change_date_task lib s list_id task_id date_str))"
  by (auto simp: change_date_task_def change_date_task_try_def
      split: sum.splits option.splits prod.splits if_splits)

text \<open>
  A \<open>sync_to_google\<close> that starts dirty and returns without an exception has saved
  the snapshot it leaves, when the storage file can be written.
\<close>

lemma sync_to_google_storage:
  assumes "sync_to_google api s = (None, s')" and "dirty s"
  shows "storage_file s' = (if storage_writable s then Some (data s') else storage_file s)"
proof -
  from assms obtain ls m s1 bs s4 where
    1: "sync_lists api (task_lists (data s)) [] s = (None, ls, m, s1)"
    and 2: "sync_buckets api (migrate_buckets m (tasks (data s1)))
              (set_tasks (migrate_buckets m (tasks (data (set_task_lists ls s1)))) (set_task_lists ls s1)) = (None, bs, s4)"
    and 3: "s' = save_local_data (set_tasks bs s4)"
    by (auto simp: sync_to_google_def Let_def set_tasks_def set_task_lists_def split: prod.splits option.splits)
  from only_server_sync_lists [OF 1] have a: "storage_writable s1 = storage_writable s" "storage_file s1 = storage_file s"
    by (auto simp: only_server_def)
  from only_server_sync_buckets [OF 2] a have b: "storage_writable s4 = storage_writable s" "storage_file s4 = storage_file s"
    by (auto simp: only_server_def set_tasks_def set_task_lists_def)
  show ?thesis
    using b by (simp add: 3 save_local_data_def save_data_def set_tasks_def)
qed

text \<open>
  C2, as the code has it. Each of the nine operations that change the cache leaves the
  state as it was apart from \<open>data\<close> and \<open>dirty\<close>: it writes no storage file (and makes
  no call on the server). The snapshot is saved at the end of a synchronisation: after a
  \<open>sync_to_google\<close> that started dirty and returned without an exception, the storage
  file holds the snapshot, unless the file cannot be written, and then it is unchanged.
\<close>

theorem cache_operations_write_no_storage:
  "(snd (add_task s now list_id title))\<lparr>data := data s, dirty := dirty s\<rparr> = s
   \<and> (snd (toggle_task_status s list_id task_id))\<lparr>data := data s, dirty := dirty s\<rparr> = s
   \<and> (snd (rename_task s list_id task_id new_name))\<lparr>data := data s, dirty := dirty s\<rparr> = s
   \<and> (snd (delete_task s list_id task_id))\<lparr>data := data s, dirty := dirty s\<rparr> = s
   \<and> (snd (change_date_task lib s list_id task_id date_str))\<lparr>data := data s, dirty := dirty s\<rparr> = s
   \<and> (snd (change_detail_task s list_id task_id detail))\<lparr>data := data s, dirty := dirty s\<rparr> = s
   \<and> (snd (add_list s now list_name))\<lparr>data := data s, dirty := dirty s\<rparr> = s
   \<and> (snd (rename_list s list_id new_title))\<lparr>data := data s, dirty := dirty s\<rparr> = s
   \<and> (snd (delete_list s list_id))\<lparr>data := data s, dirty := dirty s\<rparr> = s
   \<and> (dirty s0 \<and> sync_to_google api s0 = (None, s1) \<longrightarrow>
        storage_file s1 = (if storage_writable s0 then Some (data s1) else storage_file s0))"
proof -
  have 1: "(snd (add_task s now list_id title))\<lparr>data := data s, dirty := dirty s\<rparr> = s"
    by (simp add: add_task_def Let_def set_bucket_def)
  have 2: "(snd (toggle_task_status s list_id task_id))\<lparr>data := data s, dirty := dirty s\<rparr> = s"
    by (simp add: toggle_task_status_def update_task_frame)
  have 3: "(snd (rename_task s list_id task_id new_name))\<lparr>data := data s, dirty := dirty s\<rparr> = s"
    by (simp add: rename_task_def update_task_frame)
  have 4: "(snd (delete_task s list_id task_id))\<lparr>data := data s, dirty := dirty s\<rparr> = s"
    by (simp add: delete_task_def set_bucket_def split: sum.splits option.splits prod.splits)
  have 5: "(snd (change_date_task lib s list_id task_id date_str))\<lparr>data := data s, dirty := dirty s\<rparr> = s"
    by (rule change_date_task_frame)
  have 6: "(snd (change_detail_task s list_id task_id detail))\<lparr>data := data s, dirty := dirty s\<rparr> = s"
    by (simp add: change_detail_task_def update_task_frame)
  have 7: "(snd (add_list s now list_name))\<lparr>data := data s, dirty := dirty s\<rparr> = s"
    by (simp add: add_list_def Let_def set_bucket_def set_task_lists_def)
  have 8: "(snd (rename_list s list_id new_title))\<lparr>data := data s, dirty := dirty s\<rparr> = s"
    by (simp add: rename_list_def set_task_lists_def split: sum.splits option.splits prod.splits)
  have 9: "(snd (delete_list s list_id))\<lparr>data := data s, dirty := dirty s\<rparr> = s"
    by (simp add: delete_list_def set_task_lists_def split: sum.splits option.splits prod.splits)
  have 10: "dirty s0 \<and> sync_to_google api s0 = (None, s1) \<longrightarrow>
        storage_file s1 = (if storage_writable s0 then Some (data s1) else storage_file s0)"
    using sync_to_google_storage by blast
  from 1 2 3 4 5 6 7 8 9 10 show ?thesis by blast
qed

text \<open>
  The theorem at the scenario (the synchronisation saves the snapshot) and at an
  \<open>add_task\<close> on the example cache (the storage file is as before).
\<close>

theorem cache_operations_write_no_storage_witness:
  "dirty pending_service \<and> fst (sync_to_google counting_api pending_service) = None
   \<and> storage_file (snd (sync_to_google counting_api pending_service))
       = Some (data (snd (sync_to_google counting_api pending_service)))
   \<and> storage_file (snd (add_task example_service 1 ''L1'' ''Call'')) = storage_file example_service"
proof -
  have d: "dirty pending_service" by (simp add: pending_service_eq)
  have w: "storage_writable pending_service" by (simp add: pending_service_eq)
  have h1: "fst (sync_to_google counting_api pending_service) = None"
    by (simp add: sync_pending)
  then have h: "sync_to_google counting_api pending_service
                  = (None, snd (sync_to_google counting_api pending_service))"
    by (metis prod.collapse)
  note t = cache_operations_write_no_storage [of example_service 1 "''L1''" "''Call''" _ _ _ _ _ _ _
      pending_service counting_api "snd (sync_to_google counting_api pending_service)"]
  from t d h w have "storage_file (snd (sync_to_google counting_api pending_service))
       = Some (data (snd (sync_to_google counting_api pending_service)))" by simp
  moreover from t have "(snd (add_task example_service 1 ''L1'' ''Call''))\<lparr>data := data example_service, dirty := dirty example_service\<rparr> = example_service"
    by blast
  then have "storage_file ((snd (add_task example_service 1 ''L1'' ''Call''))\<lparr>data := data example_service, dirty := dirty example_service\<rparr>)
               = storage_file example_service"
    by (simp only:)
  then have "storage_file (snd (add_task example_service 1 ''L1'' ''Call'')) = storage_file example_service"
    by simp
  ultimately show ?thesis using d h1 by blast
qed

text \<open>
  C2 as stated fails: \<open>add_task\<close> on the example cache returns the new task and
  appends it to the bucket, and the storage file is still missing afterwards.
\<close>

theorem add_task_is_not_persisted:
  "fst (add_task example_service 1 ''L1'' ''Call'')
     = Some [(''title'', JStr ''Call''), (''id'', JStr ''temp_1''), (''status'', JStr ''needsAction'')]
   \<and> bucket (snd (add_task example_service 1 ''L1'' ''Call'')) ''L1''
     = bucket example_service ''L1''
       @ [[(''title'', JStr ''Call''), (''id'', JStr ''temp_1''), (''status'', JStr ''needsAction'')]]
   \<and> storage_file (snd (add_task example_service 1 ''L1'' ''Call'')) = None"
  by (simp add: add_task_def example_service_def str_int_1 set_bucket_def bucket_def Let_def)

subsection \<open>The dirty flag\<close>

lemma sync_to_google_clean:
  "sync_to_google api s = (None, s') \<Longrightarrow> \<not> dirty s'"
  by (auto simp: sync_to_google_def save_local_data_def Let_def split: if_splits prod.splits option.splits)

lemma sync_from_google_clean:
  "sync_from_google api s = (None, s') \<Longrightarrow> \<not> dirty s'"
  by (auto simp: sync_from_google_def save_local_data_def split: prod.splits option.splits sum.splits)

lemma init_clean: "init api w = Inr s \<Longrightarrow> \<not> dirty s"
  by (auto simp: init_def Let_def split: if_splits prod.splits option.splits sum.splits
      dest: sync_from_google_clean)

text \<open>
  C6, as the code has it. \<open>dirty\<close> is false in the state that the constructor returns
  and after every \<open>sync_to_google\<close> and \<open>sync_from_google\<close> that returns without an
  exception. Each of the nine operations that change the snapshot either leaves the
  state as it was or leaves \<open>dirty\<close> true (\<open>add_list\<close> always does). \<open>set_active_list\<close>
  leaves \<open>dirty\<close> as it was.
\<close>

theorem dirty_flag_contract:
  "(init api w = Inr s0 \<longrightarrow> \<not> dirty s0)
   \<and> (sync_to_google api s1 = (None, s2) \<longrightarrow> \<not> dirty s2)
   \<and> (sync_from_google api s3 = (None, s4) \<longrightarrow> \<not> dirty s4)
   \<and> (snd (add_task s now list_id title) \<noteq> s \<longrightarrow> dirty (snd (add_task s now list_id title)))
   \<and> (snd (toggle_task_status s list_id task_id) \<noteq> s \<longrightarrow> dirty (snd (toggle_task_status s list_id task_id)))
   \<and> (snd (rename_task s list_id task_id new_name) \<noteq> s \<longrightarrow> dirty (snd (rename_task s list_id task_id new_name)))
   \<and> (snd (delete_task s list_id task_id) \<noteq> s \<longrightarrow> dirty (snd (delete_task s list_id task_id)))
   \<and> (snd (change_date_task lib s list_id task_id date_str) \<noteq> s \<longrightarrow>
        dirty (snd (change_date_task lib s list_id task_id date_str)))
   \<and> (snd (change_detail_task s list_id task_id detail) \<noteq> s \<longrightarrow>
        dirty (snd (change_detail_task s list_id task_id detail)))
   \<and> dirty (snd (add_list s now list_name))
   \<and> (snd (rename_list s list_id new_title) \<noteq> s \<longrightarrow> dirty (snd (rename_list s list_id new_title)))
   \<and> (snd (delete_list s list_id) \<noteq> s \<longrightarrow> dirty (snd (delete_list s list_id)))
   \<and> dirty (snd (set_active_list s list_id)) = dirty s"
proof -
  have 1: "init api w = Inr s0 \<longrightarrow> \<not> dirty s0"
    using init_clean by blast
  have 2: "sync_to_google api s1 = (None, s2) \<longrightarrow> \<not> dirty s2"
    using sync_to_google_clean by blast
  have 3: "sync_from_google api s3 = (None, s4) \<longrightarrow> \<not> dirty s4"
    using sync_from_google_clean by blast
  have 4: "snd (add_task s now list_id title) \<noteq> s \<longrightarrow> dirty (snd (add_task s now list_id title))"
    by (simp add: add_task_def Let_def)
  have 5: "snd (toggle_task_status s list_id task_id) \<noteq> s \<longrightarrow> dirty (snd (toggle_task_status s list_id task_id))"
    using update_task_dirty by (auto simp: toggle_task_status_def)
  have 6: "snd (rename_task s list_id task_id new_name) \<noteq> s \<longrightarrow> dirty (snd (rename_task s list_id task_id new_name))"
    using update_task_dirty by (auto simp: rename_task_def)
  have 7: "snd (delete_task s list_id task_id) \<noteq> s \<longrightarrow> dirty (snd (delete_task s list_id task_id))"
    by (simp add: delete_task_def split: sum.splits option.splits prod.splits)
  have 8: "snd (change_date_task lib s list_id task_id date_str) \<noteq> s \<longrightarrow>
        dirty (snd (change_date_task lib s list_id task_id date_str))"
    using change_date_task_dirty by blast
  have 9: "snd (change_detail_task s list_id task_id detail) \<noteq> s \<longrightarrow>
        dirty (snd (change_detail_task s list_id task_id detail))"
    using update_task_dirty by (auto simp: change_detail_task_def)
  have 10: "dirty (snd (add_list s now list_name))"
    by (simp add: add_list_def Let_def)
  have 11: "snd (rename_list s list_id new_title) \<noteq> s \<longrightarrow> dirty (snd (rename_list s list_id new_title))"
    by (simp add: rename_list_def split: sum.splits option.splits prod.splits)
  have 12: "snd (delete_list s list_id) \<noteq> s \<longrightarrow> dirty (snd (delete_list s list_id))"
    by (simp add: delete_list_def split: sum.splits option.splits prod.splits)
  have 13: "dirty (snd (set_active_list s list_id)) = dirty s"
    by (simp add: set_active_list_def)
  from 1 2 3 4 5 6 7 8 9 10 11 12 13 show ?thesis by blast
qed

lemma init_empty:
  "init counting_api empty_service =
     Inr \<lparr>data = \<lparr>task_lists = [], tasks = []\<rparr>, dirty = False,
        active_list_id = None, remote = 0, requests = [TasklistsList],
        storage_file = Some \<lparr>task_lists = [], tasks = []\<rparr>,
        storage_writable = True\<rparr>"
  by (simp add: init_def empty_service_def load_data_def sync_from_google_def call_list_def
      counting_api_def set_tasks_def set_task_lists_def save_local_data_def save_data_def
      get_default_task_list_id_def)

text \<open>
  The theorem at the constructor on an empty world, at the scenario, and at a toggle
  and an \<open>add_task\<close> on the example cache, both of which change the state.
\<close>

theorem dirty_flag_contract_witness:
  "(\<exists>s0. init counting_api empty_service = Inr s0 \<and> \<not> dirty s0)
   \<and> fst (sync_to_google counting_api pending_service) = None
   \<and> \<not> dirty (snd (sync_to_google counting_api pending_service))
   \<and> snd (toggle_task_status example_service ''L1'' ''a'') \<noteq> example_service
   \<and> dirty (snd (toggle_task_status example_service ''L1'' ''a''))
   \<and> snd (add_task example_service 1 ''L1'' ''Call'') \<noteq> example_service
   \<and> dirty (snd (add_task example_service 1 ''L1'' ''Call''))"
proof -
  obtain s0 where i: "init counting_api empty_service = Inr s0"
    by (simp add: init_empty)
  have h1: "fst (sync_to_google counting_api pending_service) = None"
    by (simp add: sync_pending)
  then have h: "sync_to_google counting_api pending_service
                  = (None, snd (sync_to_google counting_api pending_service))"
    by (metis prod.collapse)
  have tg: "snd (toggle_task_status example_service ''L1'' ''a'') \<noteq> example_service"
  proof
    assume "snd (toggle_task_status example_service ''L1'' ''a'') = example_service"
    then have "bucket (snd (toggle_task_status example_service ''L1'' ''a'')) ''L1'' = bucket example_service ''L1''"
      by simp
    then show False
      by (simp add: toggle_task_status_def update_task_def example_service_def bucket_def
          toggle_status_def dict_get_def dict_set_def set_bucket_def)
  qed
  have ad: "snd (add_task example_service 1 ''L1'' ''Call'') \<noteq> example_service"
  proof
    assume "snd (add_task example_service 1 ''L1'' ''Call'') = example_service"
    then have "bucket (snd (add_task example_service 1 ''L1'' ''Call'')) ''L1'' = bucket example_service ''L1''"
      by simp
    then show False
      by (simp add: add_task_def example_service_def str_int_1 set_bucket_def bucket_def Let_def)
  qed
  note t = dirty_flag_contract [of counting_api empty_service s0 pending_service
      "snd (sync_to_google counting_api pending_service)" _ _ example_service 1 "''L1''" "''Call''" "''a''"]
  from t i have "\<not> dirty s0" by blast
  with i have a: "\<exists>s0. init counting_api empty_service = Inr s0 \<and> \<not> dirty s0" by blast
  from t h have b: "\<not> dirty (snd (sync_to_google counting_api pending_service))" by blast
  from t tg have c: "dirty (snd (toggle_task_status example_service ''L1'' ''a''))" by blast
  from t ad have d: "dirty (snd (add_task example_service 1 ''L1'' ''Call''))" by blast
  from a h1 b tg c ad d show ?thesis by blast
qed

text \<open>
  C6 as stated fails for \<open>set_active_list\<close>, an operation of the same table that
  changes the state: on the example cache it moves the active list from \<open>L1\<close> to \<open>L2\<close>
  and \<open>dirty\<close> is still false.
\<close>

theorem set_active_list_leaves_dirty_false:
  "snd (set_active_list example_service ''L2'') \<noteq> example_service
   \<and> active_list_id (snd (set_active_list example_service ''L2'')) = Some (JStr ''L2'')
   \<and> active_list_id example_service = Some (JStr ''L1'')
   \<and> \<not> dirty (snd (set_active_list example_service ''L2''))"
proof -
  have a: "active_list_id (snd (set_active_list example_service ''L2'')) = Some (JStr ''L2'')"
    by (simp add: set_active_list_def)
  have b: "active_list_id example_service = Some (JStr ''L1'')"
    by (simp add: example_service_def)
  have c: "\<not> dirty (snd (set_active_list example_service ''L2''))"
    by (simp add: set_active_list_def example_service_def)
  from a b have "snd (set_active_list example_service ''L2'') \<noteq> example_service"
    by auto
  with a b c show ?thesis by blast
qed

section \<open>Where the code leaves the specification\<close>

subsection \<open>A date that does not parse\<close>

text \<open>
  With the attribute \<^verbatim>\<open>isoparse.ParserError\<close> missing, every exception of the \<^verbatim>\<open>try\<close>
  block becomes an \<open>AttributeError\<close>; were the attribute there, a parse failure would
  return \<open>None\<close> and leave the state alone, as the handler intends.
\<close>

lemma change_date_task_no_attribute:
  assumes "list_id \<noteq> []" and "isoparse lib date_str = Inl e" and "isoparse_ParserError lib = None"
  shows "change_date_task lib s list_id task_id date_str = (Inl AttributeError, s)"
  using assms by (simp add: change_date_task_def change_date_task_try_def)

lemma change_date_task_with_attribute:
  assumes "isoparse lib date_str = Inl e" and "e = ValueError \<or> e = ParserError"
    and "isoparse_ParserError lib = Some ParserError"
  shows "change_date_task lib s list_id task_id date_str = (Inr None, s)"
  using assms by (auto simp: change_date_task_def change_date_task_try_def isinstance_exn_def)

text \<open>
  C4 at a failing input: on the example cache, \<open>change_date_task\<close> with the date
  \<open>not-a-date\<close> raises \<open>AttributeError\<close> (the cache is unchanged), where the claim has it
  return \<open>None\<close> without raising.
\<close>

theorem change_date_task_raises_on_parse_failure:
  "change_date_task rejecting_dateutil example_service ''L1'' ''a'' ''not-a-date''
     = (Inl AttributeError, example_service)"
  by (simp add: change_date_task_no_attribute rejecting_dateutil_def)

subsection \<open>A create that fails during the synchronisation\<close>

lemma add_task_example:
  "snd (add_task example_service 1 ''L1'' ''Call'') =
     \<lparr>data = \<lparr>task_lists = [[(''id'', JStr ''L1''), (''title'', JStr ''Home'')]],
              tasks = [(JStr ''L1'',
                        [[(''id'', JStr ''a''), (''title'', JStr ''Buy milk''), (''status'', JStr ''needsAction'')],
                         [(''id'', JStr ''b''), (''title'', JStr ''Pay rent''), (''status'', JStr ''completed'')],
                         [(''title'', JStr ''Call''), (''id'', JStr ''temp_1''), (''status'', JStr ''needsAction'')]])]\<rparr>,
      dirty = True, active_list_id = Some (JStr ''L1''), remote = 0, requests = [],
      storage_file = None, storage_writable = True\<rparr>"
  by (simp add: add_task_def example_service_def str_int_1 set_bucket_def bucket_def Let_def)

lemma toggle_example:
  "snd (toggle_task_status example_service ''L1'' ''a'') =
     \<lparr>data = \<lparr>task_lists = [[(''id'', JStr ''L1''), (''title'', JStr ''Home'')]],
              tasks = [(JStr ''L1'',
                        [[(''id'', JStr ''a''), (''title'', JStr ''Buy milk''), (''status'', JStr ''completed'')],
                         [(''id'', JStr ''b''), (''title'', JStr ''Pay rent''), (''status'', JStr ''completed'')]])]\<rparr>,
      dirty = True, active_list_id = Some (JStr ''L1''), remote = 0, requests = [],
      storage_file = None, storage_writable = True\<rparr>"
  by (simp add: toggle_task_status_def update_task_def bucket_def set_bucket_def toggle_status_def
      example_service_def dict_get_def dict_set_def)

text \<open>
  C1 at two failing inputs, with a server out of reach. In the scenario the first call,
  the creation of the list, raises and \<open>sync_to_google\<close> ends there: the exception
  leaves it, the task under the list is not looked at, \<open>dirty\<close> stays true and nothing is
  saved. With a new task in a list of the server, the two failed \<open>get\<close> calls are
  swallowed and the failed creation of the task ends the pass in the same way.
\<close>

theorem sync_to_google_aborts_on_failed_create:
  "fst (sync_to_google failing_api pending_service) = Some HttpError
   \<and> requests (snd (sync_to_google failing_api pending_service))
       = [TasklistsInsert [(''title'', JStr ''Work'')]]
   \<and> data (snd (sync_to_google failing_api pending_service)) = data pending_service
   \<and> dirty (snd (sync_to_google failing_api pending_service))
   \<and> storage_file (snd (sync_to_google failing_api pending_service)) = None
   \<and> fst (sync_to_google failing_api (snd (add_task example_service 1 ''L1'' ''Call''))) = Some HttpError
   \<and> requests (snd (sync_to_google failing_api (snd (add_task example_service 1 ''L1'' ''Call''))))
       = [TasksGet ''L1'' ''a'', TasksGet ''L1'' ''b'', TasksInsert ''L1'' [(''title'', JStr ''Call'')]]
   \<and> dirty (snd (sync_to_google failing_api (snd (add_task example_service 1 ''L1'' ''Call''))))
   \<and> storage_file (snd (sync_to_google failing_api (snd (add_task example_service 1 ''L1'' ''Call'')))) = None"
  unfolding add_task_example pending_service_eq
  by (simp add: sync_to_google_def
      failing_api_def call_def dict_get_def str_id_def startswith_def dict_item_def dict_set_def
      cons_result_def set_task_lists_def set_tasks_def new_task_body_def migrate_step_def)

text \<open>
  The calls inside \<^verbatim>\<open>try\<close> blocks behave as the claim says: with the same server and
  only a changed task to push, the pass swallows both failures, completes and saves.
\<close>

lemma sync_to_google_swallows_failed_get:
  "fst (sync_to_google failing_api (snd (toggle_task_status example_service ''L1'' ''a''))) = None
   \<and> requests (snd (sync_to_google failing_api (snd (toggle_task_status example_service ''L1'' ''a''))))
       = [TasksGet ''L1'' ''a'', TasksGet ''L1'' ''b'']
   \<and> storage_file (snd (sync_to_google failing_api (snd (toggle_task_status example_service ''L1'' ''a''))))
       = Some (data (snd (toggle_task_status example_service ''L1'' ''a'')))"
  unfolding toggle_example
  by (simp add: sync_to_google_def
      failing_api_def call_def dict_get_def str_id_def startswith_def dict_item_def dict_set_def
      cons_result_def set_task_lists_def set_tasks_def new_task_body_def migrate_step_def save_local_data_def save_data_def)

text \<open>
  A create that fails after another has succeeded leaves the pass between its loops.
  With two new lists and a server that answers only the first call, the first list is
  replaced by the record of the server and the second creation raises before any
  bucket is moved: the bucket \<open>temp_list_1\<close> has no list any more. A later
  synchronisation with a server that accepts creates the second list and skips that
  bucket, so the task \<open>Ship\<close> is never sent.
\<close>

lemma str_int_2: "str_int 2 = ''2''"
  by (simp add: str_int_def str_nat.simps [of 2] digit_char_def)

lemma two_lists_service_eq:
  "two_lists_service =
     \<lparr>data = \<lparr>task_lists = [[(''title'', JStr ''Work''), (''id'', JStr ''temp_list_1'')],
                            [(''title'', JStr ''Play''), (''id'', JStr ''temp_list_2'')]],
              tasks = [(JStr ''temp_list_1'',
                        [[(''title'', JStr ''Ship''), (''id'', JStr ''temp_1''), (''status'', JStr ''needsAction'')]]),
                       (JStr ''temp_list_2'', [])]\<rparr>,
      dirty = True, active_list_id = None, remote = 0, requests = [],
      storage_file = None, storage_writable = True\<rparr>"
  unfolding two_lists_service_def pending_service_eq
  by (simp add: add_list_def str_int_2 set_task_lists_def set_bucket_def Let_def)

lemma sync_two_lists:
  "sync_to_google one_shot_api two_lists_service =
     (Some HttpError,
      \<lparr>data = \<lparr>task_lists = [[(''title'', JStr ''Work''), (''id'', JStr ''srv0'')],
                            [(''title'', JStr ''Play''), (''id'', JStr ''temp_list_2'')]],
              tasks = [(JStr ''temp_list_1'',
                        [[(''title'', JStr ''Ship''), (''id'', JStr ''temp_1''), (''status'', JStr ''needsAction'')]]),
                       (JStr ''temp_list_2'', [])]\<rparr>,
      dirty = True, active_list_id = None, remote = 1,
      requests = [TasklistsInsert [(''title'', JStr ''Work'')], TasklistsInsert [(''title'', JStr ''Play'')]],
      storage_file = None, storage_writable = True\<rparr>)"
  unfolding two_lists_service_eq
  by (simp add: sync_to_google_def one_shot_api_def counting_api_def call_def dict_get_def
      str_id_def startswith_def dict_item_def dict_set_def cons_result_def set_task_lists_def
      set_tasks_def str_nat_0)

lemma failed_create_orphans_bucket:
  "fst (sync_to_google one_shot_api two_lists_service) = Some HttpError
   \<and> \<not> ref_integrity (data (snd (sync_to_google one_shot_api two_lists_service)))
   \<and> fst (sync_to_google counting_api (snd (sync_to_google one_shot_api two_lists_service))) = None
   \<and> data (snd (sync_to_google counting_api (snd (sync_to_google one_shot_api two_lists_service))))
       = \<lparr>task_lists = [[(''title'', JStr ''Work''), (''id'', JStr ''srv0'')],
                        [(''title'', JStr ''Play''), (''id'', JStr ''srv1'')]],
          tasks = [(JStr ''temp_list_1'',
                    [[(''title'', JStr ''Ship''), (''id'', JStr ''temp_1''), (''status'', JStr ''needsAction'')]]),
                   (JStr ''srv1'', [])]\<rparr>"
  unfolding sync_two_lists
  by (simp add: ref_integrity_def dict_get_def sync_to_google_def counting_api_def call_def
      str_id_def startswith_def dict_item_def dict_set_def cons_result_def set_task_lists_def
      set_tasks_def new_task_body_def migrate_step_def save_local_data_def save_data_def str_nat_1)

subsection \<open>Tombstones, and a list created in the same second\<close>

text \<open>
  The deletes of the cache keep every record: each record is as it was or is the old
  one with \<open>deleted\<close> set.
\<close>

lemma delete_task_keeps_records:
  "task_lists (data (snd (delete_task s list_id task_id))) = task_lists (data s)
   \<and> map fst (tasks (data (snd (delete_task s list_id task_id)))) = map fst (tasks (data s))
   \<and> list_all2 (\<lambda>a b. b = a \<or> b = dict_set a ''deleted'' (JBool True))
        (bucket s l) (bucket (snd (delete_task s list_id task_id)) l)"
proof (cases "list_id \<noteq> [] \<and> (\<exists>t ts. scan_records (\<lambda>t. dict_set t ''deleted'' (JBool True)) task_id (bucket s list_id) = Inr (Some (t, ts)))")
  case False
  then have "snd (delete_task s list_id task_id) = s"
    by (auto simp: delete_task_def split: sum.splits option.splits)
  then show ?thesis by (simp add: list_all2_refl)
next
  case True
  then obtain t ts where ne: "list_id \<noteq> []"
    and sc: "scan_records (\<lambda>t. dict_set t ''deleted'' (JBool True)) task_id (bucket s list_id) = Inr (Some (t, ts))"
    by blast
  then have s': "snd (delete_task s list_id task_id) = (set_bucket list_id ts s)\<lparr>dirty := True\<rparr>"
    by (simp add: delete_task_def)
  have some: "map_of (tasks (data s)) (JStr list_id) = Some (bucket s list_id)"
    using sc by (intro bucket_nonempty) auto
  have keys: "map fst (tasks (data (snd (delete_task s list_id task_id)))) = map fst (tasks (data s))"
    using some by (simp add: s' set_bucket_def update_keys) (metis domI dom_map_of_conv_image_fst)
  have rel: "list_all2 (\<lambda>a b. b = a \<or> b = dict_set a ''deleted'' (JBool True))
        (bucket s l) (bucket (snd (delete_task s list_id task_id)) l)"
  proof (cases "l = list_id")
    case True
    from scan_records_rel [OF sc, of "\<lambda>a b. b = a \<or> b = dict_set a ''deleted'' (JBool True)"]
    show ?thesis using True by (simp add: s' bucket_set_bucket)
  next
    case False
    then show ?thesis by (simp add: s' bucket_set_bucket list_all2_refl)
  qed
  show ?thesis using keys rel by (simp add: s' set_bucket_def)
qed

lemma delete_list_keeps_records:
  "tasks (data (snd (delete_list s list_id))) = tasks (data s)
   \<and> list_all2 (\<lambda>a b. b = a \<or> b = dict_set a ''deleted'' (JBool True))
        (task_lists (data s)) (task_lists (data (snd (delete_list s list_id))))"
proof (cases "\<exists>t ts. scan_records (\<lambda>t. dict_set t ''deleted'' (JBool True)) list_id (task_lists (data s)) = Inr (Some (t, ts))")
  case False
  then have "snd (delete_list s list_id) = s"
    by (auto simp: delete_list_def split: sum.splits option.splits)
  then show ?thesis by (simp add: list_all2_refl)
next
  case True
  then obtain t ts where
    sc: "scan_records (\<lambda>t. dict_set t ''deleted'' (JBool True)) list_id (task_lists (data s)) = Inr (Some (t, ts))"
    by blast
  then have s': "snd (delete_list s list_id) = (set_task_lists ts s)\<lparr>dirty := True\<rparr>"
    by (simp add: delete_list_def)
  from scan_records_rel [OF sc, of "\<lambda>a b. b = a \<or> b = dict_set a ''deleted'' (JBool True)"]
  show ?thesis by (simp add: s' set_task_lists_def)
qed

text \<open>
  C8 at a failing input: in the scenario, a second \<open>add_list\<close> while the clock still
  reads 1 gets the identifier \<open>temp_list_1\<close> again and assigns an empty bucket to it:
  the task \<open>Ship\<close>, which \<open>get_task\<close> found before, is gone from the snapshot.
\<close>

theorem add_list_drops_tasks_on_id_collision:
  "get_task pending_service ''temp_list_1'' ''temp_1''
     = Inr (Some [(''title'', JStr ''Ship''), (''id'', JStr ''temp_1''), (''status'', JStr ''needsAction'')])
   \<and> fst (add_list pending_service 1 ''Play'') = [(''title'', JStr ''Play''), (''id'', JStr ''temp_list_1'')]
   \<and> tasks (data (snd (add_list pending_service 1 ''Play''))) = [(JStr ''temp_list_1'', [])]
   \<and> get_task (snd (add_list pending_service 1 ''Play'')) ''temp_list_1'' ''temp_1'' = Inr None"
  by (simp add: pending_service_eq add_list_def get_task_def bucket_def str_int_1 set_bucket_def
      set_task_lists_def Let_def)

section \<open>Referential integrity\<close>

subsection \<open>A synchronisation that completes\<close>

lemma ref_integrity_alt: "ref_integrity d = (\<forall>k \<in> fst ` set (tasks d). has_list (task_lists d) k)"
  by (simp add: ref_integrity_def has_list_def)

text \<open>
  What the first loop returns when it ends without an exception, for a list with at
  least one record: the record is kept, or it was a new list and is replaced by the
  record of the server, whose \<open>id\<close> enters the map.
\<close>

lemma sync_lists_Cons_None:
  assumes "sync_lists api (l # ls) m s = (None, ls', m', s')"
  shows "(\<exists>rest' s1. ls' = l # rest' \<and> sync_lists api ls m s1 = (None, rest', m', s'))
       \<or> (\<exists>old title new_list new_id s1 rest'.
             \<not> truthy (dict_get l ''deleted'') \<and> str_id l = Inr old \<and> startswith old ''temp_list_''
           \<and> dict_item l ''title'' = Inr title
           \<and> call api (TasklistsInsert [(''title'', title)]) s = (Inr new_list, s1)
           \<and> dict_item new_list ''id'' = Inr new_id \<and> ls' = new_list # rest'
           \<and> sync_lists api ls (AList.update old new_id m) s1 = (None, rest', m', s'))"
  using assms
  by (simp add: cons_result_eq split: if_splits sum.splits prod.splits) blast+

lemma has_list_Cons: "has_list ls k \<Longrightarrow> has_list (l # ls) k"
  by (simp add: has_list_def)

lemma set_update_subset: "set (AList.update k v al) \<subseteq> insert (k, v) (set al)"
  by (induction al) auto

text \<open>
  After the first loop every old record is still there or its identifier is a key of
  the map, and every value that the loop put into the map is the \<open>id\<close> of a record of
  the new list.
\<close>

lemma sync_lists_keys:
  "sync_lists api ls m s = (None, ls', m', s') \<Longrightarrow>
     (\<forall>l \<in> set ls. l \<in> set ls' \<or> (\<exists>old. map_of l ''id'' = Some (JStr old) \<and> old \<in> fst ` set m'))
   \<and> (\<forall>(old, new) \<in> set m'. (old, new) \<in> set m \<or> has_list ls' new)
   \<and> fst ` set m \<subseteq> fst ` set m'"
proof (induction ls arbitrary: m s ls' m' s')
  case Nil
  then show ?case by auto
next
  case (Cons l ls)
  from sync_lists_Cons_None [OF Cons.prems] show ?case
  proof (elim disjE exE conjE)
    fix rest' s1
    assume ls': "ls' = l # rest'" and rec: "sync_lists api ls m s1 = (None, rest', m', s')"
    note ih = Cons.IH [OF rec]
    have 1: "\<forall>x \<in> set (l # ls). x \<in> set ls' \<or> (\<exists>old. map_of x ''id'' = Some (JStr old) \<and> old \<in> fst ` set m')"
      using ih by (auto simp: ls')
    have 2: "\<forall>(o', n') \<in> set m'. (o', n') \<in> set m \<or> has_list ls' n'"
      using ih has_list_Cons [of rest' _ l] by (fastforce simp: ls')
    from 1 2 ih show ?thesis by blast
  next
    fix old title new_list new_id s1 rest'
    assume old: "str_id l = Inr old"
      and ni: "dict_item new_list ''id'' = Inr new_id"
      and ls': "ls' = new_list # rest'"
      and rec: "sync_lists api ls (AList.update old new_id m) s1 = (None, rest', m', s')"
    note ih = Cons.IH [OF rec]
    have idl: "map_of l ''id'' = Some (JStr old)"
      using old by (auto simp: str_id_def split: option.splits json.splits)
    have inm: "old \<in> fst ` set m'"
      using ih by (auto simp: dom_update)
    have hl: "has_list ls' new_id"
      using ni by (auto simp: has_list_def ls' dict_item_def dict_get_def split: option.splits)
    have 1: "\<forall>x \<in> set (l # ls). x \<in> set ls' \<or> (\<exists>old. map_of x ''id'' = Some (JStr old) \<and> old \<in> fst ` set m')"
      using ih idl inm by (auto simp: ls')
    have 2: "\<forall>(o', n') \<in> set m'. (o', n') \<in> set m \<or> has_list ls' n'"
    proof clarify
      fix o' n' assume mem: "(o', n') \<in> set m'" and nh: "\<not> has_list ls' n'"
      from ih mem have "(o', n') \<in> set (AList.update old new_id m) \<or> has_list rest' n'" by auto
      moreover have "has_list rest' n' \<Longrightarrow> has_list ls' n'" by (simp add: ls' has_list_Cons)
      ultimately have "(o', n') \<in> set (AList.update old new_id m)" using nh by blast
      then have "(o', n') = (old, new_id) \<or> (o', n') \<in> set m"
        using set_update_subset [of old new_id m] by auto
      with hl nh show "(o', n') \<in> set m" by auto
    qed
    have 3: "fst ` set m \<subseteq> fst ` set m'"
      using ih by (auto simp: dom_update)
    from 1 2 3 show ?thesis by blast
  qed
qed

text \<open>
  The migration of the buckets takes every key that waits in the map to a key that has
  its list.
\<close>

lemma migrate_buckets_keys:
  "(\<forall>k \<in> fst ` set ts. has_list ls k \<or> (\<exists>old. k = JStr old \<and> old \<in> fst ` set m)) \<Longrightarrow>
   (\<forall>(old, new) \<in> set m. has_list ls new) \<Longrightarrow>
   \<forall>k \<in> fst ` set (migrate_buckets m ts). has_list ls k"
proof (induction m arbitrary: ts)
  case Nil
  then show ?case by auto
next
  case (Cons p m)
  obtain old new where p: "p = (old, new)" by (cases p)
  let ?ts1 = "case map_of ts (JStr old) of None \<Rightarrow> ts | Some b \<Rightarrow> AList.update new b (AList.delete (JStr old) ts)"
  have new: "has_list ls new" using Cons.prems(2) by (auto simp: p)
  have "\<forall>k \<in> fst ` set ?ts1. has_list ls k \<or> (\<exists>old. k = JStr old \<and> old \<in> fst ` set m)"
  proof
    fix k assume k: "k \<in> fst ` set ?ts1"
    show "has_list ls k \<or> (\<exists>old. k = JStr old \<and> old \<in> fst ` set m)"
    proof (cases "map_of ts (JStr old)")
      case None
      then have notin: "JStr old \<notin> fst ` set ts" by (simp add: map_of_eq_None_iff)
      from None k have kin: "k \<in> fst ` set ts" by simp
      with notin have ne: "k \<noteq> JStr old" by blast
      from Cons.prems(1) kin have "has_list ls k \<or> (\<exists>x. k = JStr x \<and> x \<in> fst ` set (p # m))" by blast
      with ne show ?thesis by (auto simp: p)
    next
      case (Some b)
      with k have "k = new \<or> k \<in> fst ` set (AList.delete (JStr old) ts)"
        by (auto simp: dom_update)
      then have "k = new \<or> (k \<in> fst ` set ts \<and> k \<noteq> JStr old)"
        by (auto simp: AList.delete_eq)
      moreover have "k \<in> fst ` set ts \<Longrightarrow> has_list ls k \<or> (\<exists>x. k = JStr x \<and> x \<in> fst ` set (p # m))"
        using Cons.prems(1) by blast
      ultimately show ?thesis using new by (auto simp: p)
    qed
  qed
  moreover have "\<forall>(old, new) \<in> set m. has_list ls new" using Cons.prems(2) by auto
  ultimately have "\<forall>k \<in> fst ` set (migrate_buckets m ?ts1). has_list ls k"
    by (rule Cons.IH)
  then show ?case by (simp add: p migrate_step_def)
qed

text \<open>The third loop keeps the length of every bucket and the keys of the dictionary.\<close>

lemma sync_tasks_length: "sync_tasks api lid ts s = (e, ts', s') \<Longrightarrow> length ts' = length ts"
proof (induction ts arbitrary: s e ts' s')
  case Nil
  then show ?case by simp
next
  case (Cons t ts)
  show ?case
    using Cons.prems
    by (auto simp: cons_result_eq split: if_splits sum.splits prod.splits dest!: Cons.IH)
qed

lemma sync_buckets_keys: "sync_buckets api bs s = (e, bs', s') \<Longrightarrow> map fst bs' = map fst bs"
proof (induction bs arbitrary: s e bs' s')
  case Nil
  then show ?case by simp
next
  case (Cons b bs)
  obtain key ts where b: "b = (key, ts)" by (cases b)
  show ?case
    using Cons.prems unfolding b
    by (auto simp: cons_result_eq split: if_splits json.splits prod.splits option.splits dest!: Cons.IH)
qed

lemma sync_to_google_ref_integrity:
  assumes "sync_to_google api s = (None, s')" and "ref_integrity (data s)"
  shows "ref_integrity (data s')"
proof (cases "dirty s")
  case False
  with assms show ?thesis by (simp add: sync_to_google_def)
next
  case True
  with assms(1) obtain ls m s1 bs s4 where
    1: "sync_lists api (task_lists (data s)) [] s = (None, ls, m, s1)"
    and 2: "sync_buckets api (migrate_buckets m (tasks (data s1)))
              (set_tasks (migrate_buckets m (tasks (data (set_task_lists ls s1)))) (set_task_lists ls s1)) = (None, bs, s4)"
    and 3: "s' = save_local_data (set_tasks bs s4)"
    by (auto simp: sync_to_google_def Let_def set_tasks_def set_task_lists_def split: prod.splits option.splits)
  from only_server_sync_lists [OF 1] have d1: "data s1 = data s" by (simp add: only_server_def)
  from only_server_sync_buckets [OF 2] have d4: "task_lists (data s4) = ls"
    by (simp add: only_server_def set_tasks_def set_task_lists_def)
  note k = sync_lists_keys [OF 1]
  have a: "\<forall>k \<in> fst ` set (tasks (data s)). has_list ls k \<or> (\<exists>old. k = JStr old \<and> old \<in> fst ` set m)"
  proof
    fix key assume "key \<in> fst ` set (tasks (data s))"
    with assms(2) obtain l where l: "l \<in> set (task_lists (data s))" and id: "dict_get l ''id'' = Some key"
      by (auto simp: ref_integrity_def)
    from k l have "l \<in> set ls \<or> (\<exists>old. map_of l ''id'' = Some (JStr old) \<and> old \<in> fst ` set m)" by blast
    then show "has_list ls key \<or> (\<exists>old. key = JStr old \<and> old \<in> fst ` set m)"
      using id by (auto simp: has_list_def dict_get_def)
  qed
  have b: "\<forall>(old, new) \<in> set m. has_list ls new" using k by auto
  from migrate_buckets_keys [OF a b] have "\<forall>k \<in> fst ` set (migrate_buckets m (tasks (data s1))). has_list ls k"
    by (simp add: d1)
  moreover from sync_buckets_keys [OF 2] have "fst ` set bs = fst ` set (migrate_buckets m (tasks (data s1)))"
    by (metis set_map)
  ultimately have "\<forall>k \<in> fst ` set bs. has_list ls k" by simp
  then show ?thesis
    by (simp add: 3 ref_integrity_alt save_local_data_def save_data_def set_tasks_def d4)
qed

subsection \<open>The operations on the cache and the pull\<close>

text \<open>
  An update of the records that keeps their \<open>id\<close> keeps the identifiers that have a
  list; a task is only found in a bucket that exists, so storing the bucket back adds
  no key.
\<close>

lemma scan_records_has_list:
  assumes "scan_records f w ls = Inr (Some (u, ls'))" and "\<And>r. dict_get (f r) ''id'' = dict_get r ''id''"
  shows "has_list ls' k = has_list ls k"
proof -
  from scan_records_rel [OF assms(1), of "\<lambda>a b. dict_get b ''id'' = dict_get a ''id''"] assms(2)
  have "list_all2 (\<lambda>a b. dict_get b ''id'' = dict_get a ''id'') ls ls'" by simp
  then have "map (\<lambda>l. dict_get l ''id'') ls' = map (\<lambda>l. dict_get l ''id'') ls"
    by (induction rule: list_all2_induct) auto
  then have "(\<lambda>l. dict_get l ''id'') ` set ls' = (\<lambda>l. dict_get l ''id'') ` set ls"
    by (metis set_map)
  then have "Some k \<in> (\<lambda>l. dict_get l ''id'') ` set ls' \<longleftrightarrow> Some k \<in> (\<lambda>l. dict_get l ''id'') ` set ls"
    by simp
  then show ?thesis by (simp add: has_list_def image_iff) (metis)
qed

lemma scan_records_in_bucket:
  assumes "scan_records f w (bucket s l) = Inr (Some (u, ts))"
  shows "fst ` set (tasks (data (set_bucket l ts s))) = fst ` set (tasks (data s))"
proof -
  have "map_of (tasks (data s)) (JStr l) = Some (bucket s l)"
    using assms by (intro bucket_nonempty) auto
  then have "JStr l \<in> fst ` set (tasks (data s))"
    by (metis domI dom_map_of_conv_image_fst)
  then show ?thesis by (auto simp: set_bucket_def dom_update)
qed

text \<open>
  The pattern of every case: the new keys are old keys or keys with a list, and no
  identifier loses its list.
\<close>

lemma ref_integrity_step:
  assumes "ref_integrity d"
    and "fst ` set (tasks d') \<subseteq> fst ` set (tasks d) \<union> K"
    and "\<And>k. k \<in> K \<Longrightarrow> has_list (task_lists d') k"
    and "\<And>k. has_list (task_lists d) k \<Longrightarrow> has_list (task_lists d') k"
  shows "ref_integrity d'"
  using assms unfolding ref_integrity_alt by blast

lemma keys_set_bucket:
  "fst ` set (tasks (data (set_bucket l ts s))) = insert (JStr l) (fst ` set (tasks (data s)))"
  by (simp add: set_bucket_def dom_update)

lemma task_lists_set_bucket [simp]: "task_lists (data (set_bucket l ts s)) = task_lists (data s)"
  by (simp add: set_bucket_def)

lemma update_task_ref_integrity:
  assumes "ref_integrity (data s)"
  shows "ref_integrity (data (snd (update_task f s list_id task_id)))"
proof (cases "list_id \<noteq> [] \<and> (\<exists>t ts. scan_records f task_id (bucket s list_id) = Inr (Some (t, ts)))")
  case False
  then have "snd (update_task f s list_id task_id) = s"
    by (auto simp: update_task_def split: sum.splits option.splits)
  with assms show ?thesis by simp
next
  case True
  then obtain t ts where ne: "list_id \<noteq> []"
    and sc: "scan_records f task_id (bucket s list_id) = Inr (Some (t, ts))" by blast
  then have s': "snd (update_task f s list_id task_id) = (set_bucket list_id ts s)\<lparr>dirty := True\<rparr>"
    by (simp add: update_task_def)
  show ?thesis
    by (rule ref_integrity_step [OF assms, where K = "{}"])
       (simp_all add: s' scan_records_in_bucket [OF sc])
qed

lemma delete_task_ref_integrity:
  assumes "ref_integrity (data s)"
  shows "ref_integrity (data (snd (delete_task s list_id task_id)))"
proof (cases "list_id \<noteq> [] \<and> (\<exists>t ts. scan_records (\<lambda>t. dict_set t ''deleted'' (JBool True)) task_id (bucket s list_id) = Inr (Some (t, ts)))")
  case False
  then have "snd (delete_task s list_id task_id) = s"
    by (auto simp: delete_task_def split: sum.splits option.splits)
  with assms show ?thesis by simp
next
  case True
  then obtain t ts where ne: "list_id \<noteq> []"
    and sc: "scan_records (\<lambda>t. dict_set t ''deleted'' (JBool True)) task_id (bucket s list_id) = Inr (Some (t, ts))" by blast
  then have s': "snd (delete_task s list_id task_id) = (set_bucket list_id ts s)\<lparr>dirty := True\<rparr>"
    by (simp add: delete_task_def)
  show ?thesis
    by (rule ref_integrity_step [OF assms, where K = "{}"])
       (simp_all add: s' scan_records_in_bucket [OF sc])
qed

lemma change_date_task_ref_integrity:
  assumes "ref_integrity (data s)"
  shows "ref_integrity (data (snd (change_date_task lib s list_id task_id date_str)))"
proof (cases "list_id \<noteq> [] \<and> (\<exists>stamp t ts. isoparse lib date_str = Inr stamp \<and>
     scan_records (\<lambda>t. dict_set t ''due'' (JStr (stamp @ ''Z''))) task_id (bucket s list_id) = Inr (Some (t, ts)))")
  case False
  then have "snd (change_date_task lib s list_id task_id date_str) = s"
    by (auto simp: change_date_task_def change_date_task_try_def split: sum.splits option.splits)
  with assms show ?thesis by simp
next
  case True
  then obtain stamp t ts where ne: "list_id \<noteq> []" and ip: "isoparse lib date_str = Inr stamp"
    and sc: "scan_records (\<lambda>t. dict_set t ''due'' (JStr (stamp @ ''Z''))) task_id (bucket s list_id) = Inr (Some (t, ts))" by blast
  then have s': "snd (change_date_task lib s list_id task_id date_str) = (set_bucket list_id ts s)\<lparr>dirty := True\<rparr>"
    by (simp add: change_date_task_def change_date_task_try_def)
  show ?thesis
    by (rule ref_integrity_step [OF assms, where K = "{}"])
       (simp_all add: s' scan_records_in_bucket [OF sc])
qed

lemma add_task_ref_integrity:
  assumes "ref_integrity (data s)" and "has_list (task_lists (data s)) (JStr list_id)"
  shows "ref_integrity (data (snd (add_task s now list_id title)))"
proof (rule ref_integrity_step [OF assms(1), where K = "{JStr list_id}"])
  show "fst ` set (tasks (data (snd (add_task s now list_id title))))
          \<subseteq> fst ` set (tasks (data s)) \<union> {JStr list_id}"
    by (auto simp: add_task_def Let_def keys_set_bucket)
  show "has_list (task_lists (data (snd (add_task s now list_id title)))) k" if "k \<in> {JStr list_id}" for k
    using that assms(2) by (auto simp: add_task_def Let_def)
  show "has_list (task_lists (data (snd (add_task s now list_id title)))) k"
    if "has_list (task_lists (data s)) k" for k
    using that by (simp add: add_task_def Let_def)
qed

lemma add_list_ref_integrity:
  assumes "ref_integrity (data s)"
  shows "ref_integrity (data (snd (add_list s now list_name)))"
proof (rule ref_integrity_step [OF assms, where K = "{JStr (''temp_list_'' @ str_int now)}"])
  show "fst ` set (tasks (data (snd (add_list s now list_name))))
          \<subseteq> fst ` set (tasks (data s)) \<union> {JStr (''temp_list_'' @ str_int now)}"
    by (auto simp: add_list_def Let_def keys_set_bucket set_task_lists_def)
  show "has_list (task_lists (data (snd (add_list s now list_name)))) k"
    if "k \<in> {JStr (''temp_list_'' @ str_int now)}" for k
    using that by (simp add: add_list_def Let_def set_task_lists_def has_list_def dict_get_def)
  show "has_list (task_lists (data (snd (add_list s now list_name)))) k"
    if "has_list (task_lists (data s)) k" for k
    using that by (auto simp: add_list_def Let_def set_task_lists_def has_list_def)
qed

lemma update_list_ref_integrity:
  assumes "ref_integrity (data s)"
    and "scan_records f w (task_lists (data s)) = Inr (Some (u, ls))"
    and "\<And>r. dict_get (f r) ''id'' = dict_get r ''id''"
  shows "ref_integrity (data ((set_task_lists ls s)\<lparr>dirty := True\<rparr>))"
  by (rule ref_integrity_step [OF assms(1), where K = "{}"])
     (simp_all add: set_task_lists_def scan_records_has_list [OF assms(2,3)])

lemma delete_list_ref_integrity:
  assumes "ref_integrity (data s)"
  shows "ref_integrity (data (snd (delete_list s list_id)))"
proof (cases "\<exists>t ts. scan_records (\<lambda>l. dict_set l ''deleted'' (JBool True)) list_id (task_lists (data s)) = Inr (Some (t, ts))")
  case False
  then have "snd (delete_list s list_id) = s"
    by (auto simp: delete_list_def split: sum.splits option.splits)
  with assms show ?thesis by simp
next
  case True
  then obtain t ts where
    sc: "scan_records (\<lambda>l. dict_set l ''deleted'' (JBool True)) list_id (task_lists (data s)) = Inr (Some (t, ts))" by blast
  then have s': "snd (delete_list s list_id) = (set_task_lists ts s)\<lparr>dirty := True\<rparr>"
    by (simp add: delete_list_def)
  show ?thesis unfolding s'
    by (rule update_list_ref_integrity [OF assms sc]) (simp add: dict_get_set)
qed

lemma rename_list_ref_integrity:
  assumes "ref_integrity (data s)"
  shows "ref_integrity (data (snd (rename_list s list_id new_title)))"
proof (cases "list_id \<noteq> [] \<and> (\<exists>t ts. scan_records (\<lambda>l. dict_set l ''title'' (JStr new_title)) list_id (task_lists (data s)) = Inr (Some (t, ts)))")
  case False
  then have "snd (rename_list s list_id new_title) = s"
    by (auto simp: rename_list_def split: sum.splits option.splits)
  with assms show ?thesis by simp
next
  case True
  then obtain t ts where ne: "list_id \<noteq> []" and
    sc: "scan_records (\<lambda>l. dict_set l ''title'' (JStr new_title)) list_id (task_lists (data s)) = Inr (Some (t, ts))" by blast
  then have s': "snd (rename_list s list_id new_title) = (set_task_lists ts s)\<lparr>dirty := True\<rparr>"
    by (simp add: rename_list_def)
  show ?thesis unfolding s'
    by (rule update_list_ref_integrity [OF assms sc]) (simp add: dict_get_set)
qed

lemma pull_tasks_ref_integrity:
  "pull_tasks api ls s = (e, s') \<Longrightarrow> set ls \<subseteq> set (task_lists (data s)) \<Longrightarrow>
   ref_integrity (data s) \<Longrightarrow> ref_integrity (data s')"
proof (induction ls arbitrary: s e s')
  case Nil
  then show ?case by simp
next
  case (Cons l ls)
  show ?case
  proof (cases "\<exists>list_id items s1. dict_item l ''id'' = Inr list_id \<and> call_list api (TasksList list_id) s = (Inr items, s1)")
    case False
    with Cons.prems(1) have "data s' = data s"
      by (auto simp: only_server_def split: sum.splits prod.splits dest!: only_server_call_list)
    with Cons.prems(3) show ?thesis by simp
  next
    case True
    then obtain list_id items s1 where id: "dict_item l ''id'' = Inr list_id"
      and c: "call_list api (TasksList list_id) s = (Inr items, s1)" by blast
    let ?s2 = "set_tasks (AList.update list_id items (tasks (data s1))) s1"
    from Cons.prems(1) id c have rec: "pull_tasks api ls ?s2 = (e, s')" by simp
    from only_server_call_list [OF c] have d: "data s1 = data s" by (simp add: only_server_def)
    have hl: "has_list (task_lists (data s)) list_id"
      using id Cons.prems(2) by (auto simp: has_list_def dict_item_def dict_get_def split: option.splits)
    have "ref_integrity (data ?s2)"
      using Cons.prems(3) hl by (auto simp: ref_integrity_alt set_tasks_def d dom_update)
    moreover have "set ls \<subseteq> set (task_lists (data ?s2))"
      using Cons.prems(2) by (simp add: set_tasks_def d)
    ultimately show ?thesis using Cons.IH [OF rec] by blast
  qed
qed

lemma sync_from_google_ref_integrity:
  assumes "ref_integrity (data s)"
  shows "ref_integrity (data (snd (sync_from_google api s)))"
proof (cases "\<exists>items s1. call_list api TasklistsList s = (Inr items, s1)")
  case False
  then have "data (snd (sync_from_google api s)) = data s"
    by (auto simp: sync_from_google_def only_server_def split: sum.splits prod.splits dest!: only_server_call_list)
  with assms show ?thesis by simp
next
  case True
  then obtain items s1 where c: "call_list api TasklistsList s = (Inr items, s1)" by blast
  let ?s2 = "set_tasks [] (set_task_lists items s1)"
  obtain e s3 where p: "pull_tasks api items ?s2 = (e, s3)" by (cases "pull_tasks api items ?s2")
  have "ref_integrity (data ?s2)" by (simp add: ref_integrity_def set_tasks_def)
  moreover have "set items \<subseteq> set (task_lists (data ?s2))" by (simp add: set_tasks_def set_task_lists_def)
  ultimately have "ref_integrity (data s3)" using pull_tasks_ref_integrity [OF p] by blast
  then show ?thesis
    using c p by (auto simp: sync_from_google_def save_local_data_def save_data_def ref_integrity_def split: option.splits)
qed

lemma init_ref_integrity:
  assumes "init api w = Inr s" and "ref_integrity (load_data w)"
  shows "ref_integrity (data s)"
proof -
  let ?s0 = "w\<lparr>data := load_data w, dirty := False\<rparr>"
  have r0: "ref_integrity (data ?s0)" using assms(2) by simp
  from sync_from_google_ref_integrity [OF r0, of api]
  have "ref_integrity (data (snd (sync_from_google api ?s0)))" .
  moreover have "data s = data (snd (sync_from_google api ?s0)) \<or> data s = data ?s0"
    using assms(1)
    by (auto simp: init_def Let_def split: if_splits prod.splits option.splits sum.splits)
  ultimately show ?thesis using r0 by auto
qed

section \<open>The migration of the provisional identifiers\<close>

subsection \<open>Prefixes and readable records\<close>

lemma startswith_iff: "startswith s p \<longleftrightarrow> (\<exists>r. s = p @ r)"
proof
  assume "startswith s p"
  then have "s = p @ drop (length p) s"
    by (metis startswith_def append_take_drop_id)
  then show "\<exists>r. s = p @ r" ..
next
  assume "\<exists>r. s = p @ r"
  then show "startswith s p" by (auto simp: startswith_def)
qed

lemma startswith_temp_list: "startswith i ''temp_list_'' \<Longrightarrow> startswith i ''temp_''"
  unfolding startswith_iff by auto

lemma fst_call: "call api req s = (res, s') \<Longrightarrow> res = fst (execute api (remote s) req)"
  by (auto simp: call_def split: prod.splits)

lemma syncable_id: "syncable p d \<Longrightarrow> \<exists>i. str_id d = Inr i \<and> map_of d ''id'' = Some (JStr i)"
  by (auto simp: syncable_def str_id_def split: option.splits json.splits)

lemma syncable_title:
  "syncable p d \<Longrightarrow> str_id d = Inr i \<Longrightarrow> \<not> truthy (dict_get d ''deleted'') \<Longrightarrow> startswith i p \<Longrightarrow>
   \<exists>title. dict_item d ''title'' = Inr title"
  by (auto simp: syncable_def str_id_def dict_item_def split: option.splits json.splits)

lemma remote_id_intro: "str_id d = Inr i \<Longrightarrow> \<not> startswith i ''temp_'' \<Longrightarrow> remote_id d"
  by (auto simp: remote_id_def str_id_def split: option.splits json.splits)

subsection \<open>New lists and identifiers of the server\<close>

lemma new_list_iff:
  "str_id l = Inr i \<Longrightarrow> new_list l \<longleftrightarrow> \<not> truthy (dict_get l ''deleted'') \<and> startswith i ''temp_list_''"
  by (auto simp: new_list_def str_id_def split: option.splits json.splits)

lemma remote_id_key: "remote_id d \<Longrightarrow> \<exists>k. dict_item d ''id'' = Inr k \<and> dict_get d ''id'' = Some k \<and> remote_key k"
  by (auto simp: remote_id_def remote_key_def dict_item_def dict_get_def split: option.splits json.splits)

subsection \<open>One step of the migration of the buckets\<close>

lemma keys_migrate_step:
  "fst ` set (migrate_step old new ts) =
     (if JStr old \<in> fst ` set ts then insert new (fst ` set ts - {JStr old}) else fst ` set ts)"
proof (cases "map_of ts (JStr old)")
  case None
  then have "JStr old \<notin> fst ` set ts" by (simp add: map_of_eq_None_iff)
  with None show ?thesis by (simp add: migrate_step_def)
next
  case (Some b)
  then have "JStr old \<in> fst ` set ts" by (metis domI dom_map_of_conv_image_fst)
  moreover have "fst ` set (AList.delete (JStr old) ts) = fst ` set ts - {JStr old}"
    by (auto simp: AList.delete_eq)
  ultimately show ?thesis using Some by (simp add: migrate_step_def dom_update)
qed

lemma values_migrate_step: "snd ` set (migrate_step old new ts) \<subseteq> snd ` set ts"
proof (cases "map_of ts (JStr old)")
  case None
  then show ?thesis by (simp add: migrate_step_def)
next
  case (Some b)
  then have "b \<in> snd ` set ts" by (metis map_of_SomeD imageI snd_conv)
  moreover have "set (AList.update new b (AList.delete (JStr old) ts)) \<subseteq> insert (new, b) (set (AList.delete (JStr old) ts))"
    by (rule set_update_subset)
  moreover have "set (AList.delete (JStr old) ts) \<subseteq> set ts" by (auto simp: AList.delete_eq)
  ultimately show ?thesis using Some by (auto simp: migrate_step_def) force
qed

lemma values_migrate_buckets: "snd ` set (migrate_buckets m ts) \<subseteq> snd ` set ts"
proof (induction m arbitrary: ts)
  case Nil
  then show ?case by simp
next
  case (Cons p m)
  obtain old new where p: "p = (old, new)" by (cases p)
  have "snd ` set (migrate_buckets m (migrate_step old new ts)) \<subseteq> snd ` set (migrate_step old new ts)"
    by (rule Cons.IH)
  also have "\<dots> \<subseteq> snd ` set ts" by (rule values_migrate_step)
  finally show ?case by (simp add: p)
qed

lemma keys_migrate_buckets: "fst ` set (migrate_buckets m ts) \<subseteq> fst ` set ts \<union> snd ` set m"
proof (induction m arbitrary: ts)
  case Nil
  then show ?case by simp
next
  case (Cons p m)
  obtain old new where p: "p = (old, new)" by (cases p)
  have "fst ` set (migrate_buckets m (migrate_step old new ts)) \<subseteq> fst ` set (migrate_step old new ts) \<union> snd ` set m"
    by (rule Cons.IH)
  also have "\<dots> \<subseteq> fst ` set ts \<union> snd ` set (p # m)"
    by (auto simp: keys_migrate_step p split: if_splits)
  finally show ?case by (simp add: p)
qed

lemma remote_key_not_temp: "remote_key k \<Longrightarrow> startswith old ''temp_list_'' \<Longrightarrow> k \<noteq> JStr old"
  by (auto simp: remote_key_def dest: startswith_temp_list)

subsection \<open>The log of the requests\<close>

lemma extends_iff: "extends s s' \<longleftrightarrow> (\<exists>rs. requests s' = requests s @ rs)"
proof
  assume "extends s s'"
  then have "requests s' = requests s @ drop (length (requests s)) (requests s')"
    by (metis extends_def append_take_drop_id)
  then show "\<exists>rs. requests s' = requests s @ rs" ..
next
  assume "\<exists>rs. requests s' = requests s @ rs"
  then show "extends s s'" by (auto simp: extends_def)
qed

lemma extends_refl [simp]: "extends s s"
  by (simp add: extends_def)

lemma extends_trans: "extends s s' \<Longrightarrow> extends s' s'' \<Longrightarrow> extends s s''"
  unfolding extends_iff by auto

lemma extends_call: "call api req s = (res, s') \<Longrightarrow> extends s s'"
  by (auto simp: call_def extends_def split: prod.splits)

lemma extends_sync_lists:
  "sync_lists api ls m s = (e, ls', m', s') \<Longrightarrow> extends s s'"
proof (induction ls arbitrary: m s e ls' m' s')
  case Nil
  then show ?case by simp
next
  case (Cons l ls)
  show ?case
    using Cons.prems
    by (auto simp: cons_result_eq split: if_splits sum.splits prod.splits
        dest!: Cons.IH extends_call intro: extends_trans)
qed

lemma extends_sync_tasks:
  "sync_tasks api lid ts s = (e, ts', s') \<Longrightarrow> extends s s'"
proof (induction ts arbitrary: s e ts' s')
  case Nil
  then show ?case by simp
next
  case (Cons t ts)
  show ?case
    using Cons.prems
    by (auto simp: cons_result_eq split: if_splits sum.splits prod.splits
        dest!: Cons.IH extends_call intro: extends_trans)
qed

lemma extends_sync_buckets:
  "sync_buckets api bs s = (e, bs', s') \<Longrightarrow> extends s s'"
proof (induction bs arbitrary: s e bs' s')
  case Nil
  then show ?case by simp
next
  case (Cons b bs)
  obtain key ts where b: "b = (key, ts)" by (cases b)
  show ?case
    using Cons.prems unfolding b
    by (auto simp: cons_result_eq split: if_splits json.splits prod.splits option.splits
        dest!: Cons.IH extends_sync_tasks intro: extends_trans)
qed

text \<open>One call of a pass whose calls all succeed.\<close>

lemma call_calls_succeed:
  assumes c: "call api req s = (res, s1)" and ext: "extends s1 sf" and ok: "calls_succeed api s sf"
  shows "\<exists>d. res = Inr d \<and> good_response req d \<and> calls_succeed api s1 sf"
proof -
  obtain x r' where ex: "execute api (remote s) req = (x, r')" by (cases "execute api (remote s) req")
  with c have res: "res = x" and r1: "remote s1 = r'" and q1: "requests s1 = requests s @ [req]"
    by (auto simp: call_def)
  from ext obtain rs where sf: "requests sf = requests s1 @ rs" unfolding extends_iff by blast
  have d0: "drop (length (requests s)) (requests sf) = req # rs" by (simp add: sf q1)
  have d1: "drop (length (requests s1)) (requests sf) = rs" by (simp add: sf)
  from ok have "replay_ok api (remote s) (req # rs)" by (simp add: calls_succeed_def d0)
  with ex obtain d where "x = Inr d" and "good_response req d" and "replay_ok api r' rs"
    by (cases x) auto
  then show ?thesis by (simp add: res calls_succeed_def d1 r1)
qed

subsection \<open>The loops, one element at a time\<close>

lemma sync_tasks_Cons:
  "sync_tasks api list_id (task # rest) s =
     (case sync_task api list_id task s of
        (Some e, t', s1) \<Rightarrow> (Some e, t' # rest, s1)
      | (None, t', s1) \<Rightarrow> cons_result t' (sync_tasks api list_id rest s1))"
  by (simp add: sync_task_def split: sum.splits prod.splits)

lemma sync_lists_Cons:
  "sync_lists api (task_list # rest) m s =
     (case sync_list api task_list m s of
        (Some e, l', m1, s1) \<Rightarrow> (Some e, l' # rest, m1, s1)
      | (None, l', m1, s1) \<Rightarrow> cons_result l' (sync_lists api rest m1 s1))"
  by (simp add: sync_list_def split: sum.splits prod.splits)

lemma sync_buckets_Cons:
  "sync_buckets api ((key, ts) # rest) s =
     (case sync_bucket api key ts s of
        (Some e, ts', s1) \<Rightarrow> (Some e, (key, ts') # rest, s1)
      | (None, ts', s1) \<Rightarrow> cons_result (key, ts') (sync_buckets api rest s1))"
  by (simp add: sync_bucket_def split: json.splits prod.splits option.splits)

subsection \<open>A pass that completes\<close>

lemma sync_task_done:
  "sync_task api lid t s = (None, t', s1) \<Longrightarrow> task_synced api lid t t'"
  by (auto simp: sync_task_def task_synced_def split: if_splits sum.splits prod.splits
      dest!: fst_call)

lemma sync_tasks_done:
  "sync_tasks api lid ts s = (None, ts', s') \<Longrightarrow> list_all2 (task_synced api lid) ts ts'"
proof (induction ts arbitrary: s ts' s')
  case Nil
  then show ?case by simp
next
  case (Cons t ts)
  obtain e1 t1 s1 where st: "sync_task api lid t s = (e1, t1, s1)"
    by (cases "sync_task api lid t s")
  show ?case
  proof (cases e1)
    case (Some e)
    with Cons.prems [unfolded sync_tasks_Cons st] show ?thesis by simp
  next
    case None
    obtain e2 ts2 s2 where rec: "sync_tasks api lid ts s1 = (e2, ts2, s2)"
      by (cases "sync_tasks api lid ts s1")
    from Cons.prems [unfolded sync_tasks_Cons st] None rec have eq: "e2 = None" "ts' = t1 # ts2" "s' = s2"
      by (simp_all add: cons_result_def)
    from rec eq have "list_all2 (task_synced api lid) ts ts2" by (simp add: Cons.IH)
    moreover from st None have "task_synced api lid t t1" by (simp add: sync_task_done)
    ultimately show ?thesis by (simp add: eq)
  qed
qed

lemma sync_list_done:
  "sync_list api l m s = (None, l', m1, s1) \<Longrightarrow>
   list_replaced api l l' \<and> m1 = fold id_update (id_pair l l') m"
  by (auto simp: sync_list_def list_replaced_def list_created_def new_list_iff id_update_def id_pair_def
      dict_item_def dict_get_def
      split: if_splits sum.splits prod.splits option.splits dest!: fst_call)

lemma sync_lists_done:
  "sync_lists api ls m s = (None, ls', m', s') \<Longrightarrow>
   list_all2 (list_replaced api) ls ls' \<and> m' = fold id_update (id_pairs ls ls') m"
proof (induction ls arbitrary: m s ls' m' s')
  case Nil
  then show ?case by simp
next
  case (Cons l ls)
  obtain e1 l1 m1 s1 where st: "sync_list api l m s = (e1, l1, m1, s1)"
    by (cases "sync_list api l m s")
  show ?case
  proof (cases e1)
    case (Some e)
    with Cons.prems [unfolded sync_lists_Cons st] show ?thesis by simp
  next
    case None
    obtain e2 ls2 m2 s2 where rec: "sync_lists api ls m1 s1 = (e2, ls2, m2, s2)"
      by (cases "sync_lists api ls m1 s1")
    from Cons.prems [unfolded sync_lists_Cons st] None rec have eq: "e2 = None" "ls' = l1 # ls2" "m' = m2" "s' = s2"
      by (simp_all add: cons_result_def)
    from rec eq have ih: "list_all2 (list_replaced api) ls ls2"
      "m2 = fold id_update (id_pairs ls ls2) m1" by (simp_all add: Cons.IH)
    from st None have "sync_list api l m s = (None, l1, m1, s1)" by simp
    from sync_list_done [OF this]
    have one: "list_replaced api l l1" "m1 = fold id_update (id_pair l l1) m"
      by blast+
    have "m2 = fold id_update (id_pairs (l # ls) (l1 # ls2)) m"
      by (simp add: ih(2) one(2))
    with ih(1) one(1) show ?thesis by (simp add: eq)
  qed
qed

lemma sync_bucket_done:
  "sync_bucket api k ts s = (None, ts', s1) \<Longrightarrow> bucket_synced api k ts ts'"
  by (auto simp: sync_bucket_def bucket_synced_def split: json.splits if_splits
      dest: sync_tasks_done)

lemma sync_buckets_done:
  "sync_buckets api bs s = (None, bs', s') \<Longrightarrow>
   list_all2 (\<lambda>b b'. fst b' = fst b \<and> bucket_synced api (fst b) (snd b) (snd b')) bs bs'"
proof (induction bs arbitrary: s bs' s')
  case Nil
  then show ?case by simp
next
  case (Cons b bs)
  obtain k ts where b: "b = (k, ts)" by (cases b)
  obtain e1 ts1 s1 where st: "sync_bucket api k ts s = (e1, ts1, s1)"
    by (cases "sync_bucket api k ts s")
  show ?case
  proof (cases e1)
    case (Some e)
    with Cons.prems [unfolded b sync_buckets_Cons st] show ?thesis by simp
  next
    case None
    obtain e2 bs2 s2 where rec: "sync_buckets api bs s1 = (e2, bs2, s2)"
      by (cases "sync_buckets api bs s1")
    from Cons.prems [unfolded b sync_buckets_Cons st] None rec have eq: "e2 = None" "bs' = (k, ts1) # bs2" "s' = s2"
      by (simp_all add: cons_result_def)
    from rec eq have "list_all2 (\<lambda>b b'. fst b' = fst b \<and> bucket_synced api (fst b) (snd b) (snd b')) bs bs2"
      by (simp add: Cons.IH)
    moreover from st None have "bucket_synced api k ts ts1" by (simp add: sync_bucket_done)
    ultimately show ?thesis by (simp add: eq b)
  qed
qed

text \<open>A bucket is found again, under its key, after the third loop.\<close>

lemma related_buckets_map_of:
  "list_all2 (\<lambda>b b'. fst b' = fst b \<and> R (fst b) (snd b) (snd b')) bs bs' \<Longrightarrow>
   map_of bs k = Some ts \<Longrightarrow> \<exists>ts'. map_of bs' k = Some ts' \<and> R k ts ts'"
proof (induction bs bs' rule: list_all2_induct)
  case Nil
  then show ?case by simp
next
  case (Cons b bs b' bs')
  then show ?case by (cases b; cases b') (auto split: if_splits)
qed

lemma related_buckets_keys:
  "list_all2 (\<lambda>b b'. fst b' = fst b \<and> R (fst b) (snd b) (snd b')) bs bs' \<Longrightarrow> map fst bs' = map fst bs"
  by (induction bs bs' rule: list_all2_induct) auto

subsection \<open>The identifiers replaced in the first loop\<close>

lemma new_list_id:
  "new_list l \<Longrightarrow> \<exists>old. map_of l ''id'' = Some (JStr old) \<and> str_id l = Inr old \<and> startswith old ''temp_list_''"
  by (auto simp: new_list_def str_id_def split: option.splits json.splits)

lemma id_pairs_one:
  assumes "list_replaced api l l'"
  shows "if new_list l
         then \<exists>old new. map_of l ''id'' = Some (JStr old) \<and> startswith old ''temp_list_''
                \<and> map_of l' ''id'' = Some new \<and> id_pair l l' = [(old, new)]
         else id_pair l l' = []"
proof (cases "new_list l")
  case True
  from new_list_id [OF True] obtain old where
    o: "map_of l ''id'' = Some (JStr old)" "str_id l = Inr old" "startswith old ''temp_list_''" by blast
  from assms True obtain new where n: "map_of l' ''id'' = Some new"
    by (auto simp: list_replaced_def dict_get_def)
  from True o n have "id_pair l l' = [(old, new)]" by (simp add: id_pair_def)
  with True o n show ?thesis by auto
next
  case False
  then show ?thesis by (simp add: id_pair_def)
qed

lemma id_pairs_provisional:
  "list_all2 (list_replaced api) ls ls' \<Longrightarrow>
   map (\<lambda>p. Some (JStr (fst p))) (id_pairs ls ls') = provisional_ids ls"
proof (induction ls ls' rule: list_all2_induct)
  case Nil
  then show ?case by (simp add: provisional_ids_def)
next
  case (Cons l ls l' ls')
  from id_pairs_one [OF Cons.hyps(1)]
  have "map (\<lambda>p. Some (JStr (fst p))) (id_pair l l') = provisional_ids [l]"
    by (cases "new_list l") (auto simp: provisional_ids_def dict_get_def)
  moreover have "provisional_ids (l # ls) = provisional_ids [l] @ provisional_ids ls"
    by (simp add: provisional_ids_def)
  ultimately show ?case
    using Cons.IH by simp
qed

lemma id_pairs_created:
  "list_all2 (list_replaced api) ls ls' \<Longrightarrow>
   map (\<lambda>p. Some (snd p)) (id_pairs ls ls') = created_ids ls ls'"
proof (induction ls ls' rule: list_all2_induct)
  case Nil
  then show ?case by (simp add: created_ids_def)
next
  case (Cons l ls l' ls')
  from id_pairs_one [OF Cons.hyps(1)]
  have "map (\<lambda>p. Some (snd p)) (id_pair l l') = created_ids [l] [l']"
    by (cases "new_list l") (auto simp: created_ids_def dict_get_def)
  moreover have "created_ids (l # ls) (l' # ls') = created_ids [l] [l'] @ created_ids ls ls'"
    by (simp add: created_ids_def)
  ultimately show ?case
    using Cons.IH by simp
qed

lemma id_pairs_member:
  "list_all2 (list_replaced api) ls ls' \<Longrightarrow> set (id_pairs ls ls') \<subseteq> S \<Longrightarrow>
   list_all2 (\<lambda>l l'. list_replaced api l l' \<and>
       (new_list l \<longrightarrow> (\<exists>old new. map_of l ''id'' = Some (JStr old) \<and> map_of l' ''id'' = Some new
                            \<and> (old, new) \<in> S))) ls ls'"
proof (induction ls ls' rule: list_all2_induct)
  case Nil
  then show ?case by simp
next
  case (Cons l ls l' ls')
  have "set (id_pairs (l # ls) (l' # ls')) = set (id_pair l l') \<union> set (id_pairs ls ls')"
    by simp
  with Cons.prems have sub: "set (id_pair l l') \<subseteq> S" "set (id_pairs ls ls') \<subseteq> S"
    by blast+
  from id_pairs_one [OF Cons.hyps(1)] sub(1)
  have "new_list l \<longrightarrow> (\<exists>old new. map_of l ''id'' = Some (JStr old) \<and> map_of l' ''id'' = Some new
                            \<and> (old, new) \<in> S)"
    by (cases "new_list l") auto
  with Cons.hyps(1) Cons.IH [OF sub(2)] show ?case by simp
qed

lemma id_pairs_provisional_key:
  "p \<in> set (id_pairs ls ls') \<Longrightarrow> startswith (fst p) ''temp_list_''"
proof (induction ls ls' rule: id_pairs.induct)
  case (1 l ls l' ls')
  have "set (id_pairs (l # ls) (l' # ls')) = set (id_pair l l') \<union> set (id_pairs ls ls')"
    by simp
  with "1.prems" have "p \<in> set (id_pair l l') \<or> p \<in> set (id_pairs ls ls')"
    by blast
  then show ?case
  proof
    assume a: "p \<in> set (id_pair l l')"
    then have nl: "new_list l" by (cases "new_list l") (simp_all add: id_pair_def)
    from new_list_id [OF nl] obtain old where
      o: "str_id l = Inr old" "startswith old ''temp_list_''" by blast
    from a nl o(1) have "fst p = old"
      by (cases "map_of l' ''id''") (simp_all add: id_pair_def)
    with o(2) show ?thesis by simp
  next
    assume "p \<in> set (id_pairs ls ls')"
    then show ?thesis by (rule "1.IH")
  qed
qed simp_all

text \<open>With distinct provisional identifiers, the dictionary \<open>new_list_id_map\<close> is the list of the pairs.\<close>

lemma update_absent: "k \<notin> fst ` set m \<Longrightarrow> AList.update k v m = m @ [(k, v)]"
  by (induction m) auto

lemma fold_id_update:
  "distinct (map fst ps) \<Longrightarrow> fst ` set ps \<inter> fst ` set m = {} \<Longrightarrow> fold id_update ps m = m @ ps"
proof (induction ps arbitrary: m)
  case Nil
  then show ?case by simp
next
  case (Cons p ps)
  from Cons.prems have a: "fst p \<notin> fst ` set m" by auto
  then have u: "id_update p m = m @ [p]" by (simp add: id_update_def update_absent)
  from Cons.prems have "distinct (map fst ps)" and "fst ` set ps \<inter> fst ` set (m @ [p]) = {}"
    by auto
  then have "fold id_update ps (m @ [p]) = (m @ [p]) @ ps" by (rule Cons.IH)
  then show ?case by (simp add: u)
qed

subsection \<open>The migration of one bucket\<close>

lemma migrate_step_other:
  "k \<noteq> new \<Longrightarrow> k \<noteq> JStr old \<Longrightarrow> map_of (migrate_step old new bs) k = map_of bs k"
  by (cases "map_of bs (JStr old)") (simp_all add: migrate_step_def update_conv' delete_conv')

lemma migrate_step_new:
  "map_of bs (JStr old) = Some b \<Longrightarrow> map_of (migrate_step old new bs) new = Some b"
  by (simp add: migrate_step_def update_conv')

lemma migrate_step_old:
  "new \<noteq> JStr old \<Longrightarrow> map_of (migrate_step old new bs) (JStr old) = None"
  by (cases "map_of bs (JStr old)") (simp_all add: migrate_step_def update_conv' delete_conv')

lemma migrate_buckets_other:
  "\<forall>p \<in> set ps. k \<noteq> snd p \<and> k \<noteq> JStr (fst p) \<Longrightarrow> map_of (migrate_buckets ps bs) k = map_of bs k"
proof (induction ps arbitrary: bs)
  case Nil
  then show ?case by simp
next
  case (Cons p ps)
  obtain old new where p: "p = (old, new)" by (cases p)
  from Cons.prems have "map_of (migrate_buckets ps (migrate_step old new bs)) k
      = map_of (migrate_step old new bs) k"
    by (intro Cons.IH) simp
  also from Cons.prems have "\<dots> = map_of bs k" by (simp add: p migrate_step_other)
  finally show ?case by (simp add: p)
qed

lemma fresh_ids_Cons:
  assumes "fresh_ids (p # ps)"
  shows "fresh_ids ps \<and> snd p \<noteq> JStr (fst p)
   \<and> (\<forall>q \<in> set ps. fst q \<noteq> fst p \<and> snd q \<noteq> snd p \<and> snd p \<noteq> JStr (fst q) \<and> snd q \<noteq> JStr (fst p))"
proof -
  from assms have d1: "fst p \<notin> fst ` set ps" and d2: "snd p \<notin> snd ` set ps"
    and f: "fresh_ids ps"
    and sp: "startswith (fst p) ''temp_list_''" and rp: "remote_key (snd p)"
    and all: "\<forall>q \<in> set ps. startswith (fst q) ''temp_list_'' \<and> remote_key (snd q)"
    by (simp_all add: fresh_ids_def)
  have "fst q \<noteq> fst p \<and> snd q \<noteq> snd p \<and> snd p \<noteq> JStr (fst q) \<and> snd q \<noteq> JStr (fst p)"
    if q: "q \<in> set ps" for q
  proof -
    from q have "fst q \<in> fst ` set ps" and "snd q \<in> snd ` set ps" by simp_all
    with d1 d2 have "fst q \<noteq> fst p" and "snd q \<noteq> snd p" by metis+
    moreover note this(2)
    moreover from all q rp have "snd p \<noteq> JStr (fst q)" by (simp add: remote_key_not_temp)
    moreover from all q sp have "snd q \<noteq> JStr (fst p)" by (simp add: remote_key_not_temp)
    ultimately show ?thesis by simp
  qed
  moreover from rp sp have "snd p \<noteq> JStr (fst p)" by (rule remote_key_not_temp)
  ultimately show ?thesis using f by blast
qed

lemma migrate_buckets_value:
  "fresh_ids ps \<Longrightarrow> (old, new) \<in> set ps \<Longrightarrow> map_of bs (JStr old) = Some b \<Longrightarrow>
   map_of (migrate_buckets ps bs) new = Some b"
proof (induction ps arbitrary: bs)
  case Nil
  then show ?case by simp
next
  case (Cons p ps)
  obtain o1 n1 where p: "p = (o1, n1)" by (cases p)
  from fresh_ids_Cons [OF Cons.prems(1)] have f: "fresh_ids ps" "n1 \<noteq> JStr o1"
    and q: "\<forall>q \<in> set ps. fst q \<noteq> o1 \<and> snd q \<noteq> n1 \<and> n1 \<noteq> JStr (fst q) \<and> snd q \<noteq> JStr o1"
    by (simp_all add: p)
  show ?case
  proof (cases "(old, new) = (o1, n1)")
    case True
    from q have "map_of (migrate_buckets ps (migrate_step o1 n1 bs)) n1 = map_of (migrate_step o1 n1 bs) n1"
      by (intro migrate_buckets_other) auto
    also from True Cons.prems(3) have "\<dots> = Some b" by (simp add: migrate_step_new)
    finally show ?thesis using True by (simp add: p)
  next
    case False
    with Cons.prems(2) have m: "(old, new) \<in> set ps" by (auto simp: p)
    with q have "old \<noteq> o1" and "n1 \<noteq> JStr old" by force+
    then have "map_of (migrate_step o1 n1 bs) (JStr old) = map_of bs (JStr old)"
      by (intro migrate_step_other) auto
    with Cons.prems(3) have "map_of (migrate_step o1 n1 bs) (JStr old) = Some b" by simp
    with f(1) m have "map_of (migrate_buckets ps (migrate_step o1 n1 bs)) new = Some b"
      by (rule Cons.IH)
    then show ?thesis by (simp add: p)
  qed
qed

lemma migrate_buckets_gone:
  "fresh_ids ps \<Longrightarrow> (old, new) \<in> set ps \<Longrightarrow> map_of (migrate_buckets ps bs) (JStr old) = None"
proof (induction ps arbitrary: bs)
  case Nil
  then show ?case by simp
next
  case (Cons p ps)
  obtain o1 n1 where p: "p = (o1, n1)" by (cases p)
  from fresh_ids_Cons [OF Cons.prems(1)] have f: "fresh_ids ps" "n1 \<noteq> JStr o1"
    and q: "\<forall>q \<in> set ps. fst q \<noteq> o1 \<and> snd q \<noteq> n1 \<and> n1 \<noteq> JStr (fst q) \<and> snd q \<noteq> JStr o1"
    by (simp_all add: p)
  show ?case
  proof (cases "(old, new) = (o1, n1)")
    case True
    from q have "map_of (migrate_buckets ps (migrate_step o1 n1 bs)) (JStr o1)
        = map_of (migrate_step o1 n1 bs) (JStr o1)"
      by (intro migrate_buckets_other) auto
    also from f(2) have "\<dots> = None" by (rule migrate_step_old)
    finally show ?thesis using True by (simp add: p)
  next
    case False
    with Cons.prems(2) have m: "(old, new) \<in> set ps" by (auto simp: p)
    from f(1) m have "map_of (migrate_buckets ps (migrate_step o1 n1 bs)) (JStr old) = None"
      by (rule Cons.IH)
    then show ?thesis by (simp add: p)
  qed
qed

subsection \<open>The buckets of the new lists after the pass\<close>

lemma distinct_map_D: "distinct (map f xs) \<Longrightarrow> distinct xs"
  by (simp add: distinct_map)

lemma fresh_id_pairs:
  assumes rel: "list_all2 (list_replaced api) ls ls'"
    and dp: "distinct (provisional_ids ls)"
    and dc: "distinct (created_ids ls ls')"
    and rk: "list_all remote_key_opt (created_ids ls ls')"
  shows "fresh_ids (id_pairs ls ls')"
proof -
  let ?ps = "id_pairs ls ls'"
  have "map (\<lambda>x. Some (JStr x)) (map fst ?ps) = provisional_ids ls"
    using id_pairs_provisional [OF rel] by (simp add: comp_def)
  with dp have "distinct (map (\<lambda>x. Some (JStr x)) (map fst ?ps))" by simp
  then have 1: "distinct (map fst ?ps)" by (rule distinct_map_D)
  have c: "map Some (map snd ?ps) = created_ids ls ls'"
    using id_pairs_created [OF rel] by (simp add: comp_def)
  with dc have "distinct (map Some (map snd ?ps))" by simp
  then have 2: "distinct (map snd ?ps)" by (rule distinct_map_D)
  have 3: "startswith (fst p) ''temp_list_'' \<and> remote_key (snd p)" if p: "p \<in> set ?ps" for p
  proof -
    from p have "Some (snd p) \<in> set (map Some (map snd ?ps))" by simp
    with c have "Some (snd p) \<in> set (created_ids ls ls')" by simp
    with rk have "remote_key_opt (Some (snd p))" by (simp add: list_all_iff)
    then have "remote_key (snd p)" by (simp add: remote_key_opt_def)
    with id_pairs_provisional_key [OF p] show ?thesis by simp
  qed
  from 1 2 3 show ?thesis by (simp add: fresh_ids_def)
qed

lemma remote_key_str: "remote_key k \<Longrightarrow> \<exists>lid. k = JStr lid \<and> \<not> startswith lid ''temp_''"
  by (cases k) (simp_all add: remote_key_def)

lemma rekeys_core:
  assumes rel: "list_all2 (list_replaced api) ls ls'"
    and dp: "distinct (provisional_ids ls)"
    and dc: "distinct (created_ids ls ls')"
    and rk: "list_all remote_key_opt (created_ids ls ls')"
    and bsync: "list_all2 (\<lambda>b b'. fst b' = fst b \<and> B (fst b) (snd b) (snd b'))
                  (migrate_buckets (id_pairs ls ls') bs) bs'"
    and BR: "\<And>lid ts ts'. \<not> startswith lid ''temp_'' \<Longrightarrow> B (JStr lid) ts ts' \<Longrightarrow> list_all2 (R lid) ts ts'"
  shows "list_all2 (\<lambda>l l'. if new_list l then list_created api l l' \<and> bucket_moved R bs bs' l l'
                            else l' = l) ls ls'"
proof -
  let ?ps = "id_pairs ls ls'"
  let ?mg = "migrate_buckets ?ps bs"
  note fresh = fresh_id_pairs [OF rel dp dc rk]
  have keys: "map fst bs' = map fst ?mg" by (rule related_buckets_keys [OF bsync])
  have none: "map_of bs' k = None \<longleftrightarrow> map_of ?mg k = None" for k
  proof -
    have "map_of bs' k = None \<longleftrightarrow> k \<notin> set (map fst bs')" by (simp add: map_of_eq_None_iff)
    also have "\<dots> \<longleftrightarrow> k \<notin> set (map fst ?mg)" by (simp only: keys)
    also have "\<dots> \<longleftrightarrow> map_of ?mg k = None" by (simp add: map_of_eq_None_iff)
    finally show ?thesis .
  qed
  have one: "if new_list l then list_created api l l' \<and> bucket_moved R bs bs' l l' else l' = l"
    if h: "list_replaced api l l' \<and>
       (new_list l \<longrightarrow> (\<exists>old new. map_of l ''id'' = Some (JStr old) \<and> map_of l' ''id'' = Some new
                            \<and> (old, new) \<in> set ?ps))" for l l'
  proof (cases "new_list l")
    case False
    with h show ?thesis by (simp add: list_replaced_def)
  next
    case True
    with h obtain old new where o: "map_of l ''id'' = Some (JStr old)"
      and n: "map_of l' ''id'' = Some new" and m: "(old, new) \<in> set ?ps" by blast
    from fresh m have "remote_key new" by (auto simp: fresh_ids_def)
    then obtain lid where lid: "new = JStr lid" "\<not> startswith lid ''temp_''"
      using remote_key_str by blast
    from migrate_buckets_gone [OF fresh m] have g: "map_of bs' (JStr old) = None"
      by (simp add: none)
    have v: "\<exists>ts'. map_of bs' (JStr lid) = Some ts' \<and> list_all2 (R lid) ts ts'"
      if ts: "map_of bs (JStr old) = Some ts" for ts
    proof -
      from migrate_buckets_value [OF fresh m ts] have "map_of ?mg (JStr lid) = Some ts"
        by (simp add: lid)
      from related_buckets_map_of [OF bsync this] obtain ts' where
        "map_of bs' (JStr lid) = Some ts'" and "B (JStr lid) ts ts'" by blast
      with BR [OF lid(2)] show ?thesis by blast
    qed
    have "bucket_moved R bs bs' l l'"
    proof (cases "map_of bs (JStr old)")
      case None
      with o n g lid show ?thesis by (simp add: bucket_moved_def dict_get_def)
    next
      case (Some ts)
      from v [OF Some] obtain ts' where "map_of bs' (JStr lid) = Some ts'" "list_all2 (R lid) ts ts'"
        by blast
      with Some o n g lid show ?thesis by (simp add: bucket_moved_def dict_get_def)
    qed
    with h True show ?thesis by (simp add: list_replaced_def)
  qed
  from id_pairs_member [OF rel subset_refl]
  show ?thesis by (rule list_all2_mono) (rule one)
qed

subsection \<open>The parts of a pass\<close>

lemma sync_to_google_parts:
  assumes run: "sync_to_google api s = (e, s')" and d: "dirty s"
  shows "(\<exists>e1 ls m s1. sync_lists api (task_lists (data s)) [] s = (Some e1, ls, m, s1)
            \<and> e = Some e1 \<and> s' = set_task_lists ls s1)
       \<or> (\<exists>ls m s1 e2 bs s4. sync_lists api (task_lists (data s)) [] s = (None, ls, m, s1)
            \<and> sync_buckets api (migrate_buckets m (tasks (data s)))
                 (set_tasks (migrate_buckets m (tasks (data s))) (set_task_lists ls s1)) = (e2, bs, s4)
            \<and> e = e2 \<and> task_lists (data s4) = ls
            \<and> s' = (if e2 = None then save_local_data (set_tasks bs s4) else set_tasks bs s4))"
proof -
  obtain e1 ls m s1 where 1: "sync_lists api (task_lists (data s)) [] s = (e1, ls, m, s1)"
    by (cases "sync_lists api (task_lists (data s)) [] s")
  from only_server_sync_lists [OF 1] have d1: "data s1 = data s" by (simp add: only_server_def)
  show ?thesis
  proof (cases e1)
    case (Some x)
    with run d 1 show ?thesis by (auto simp: sync_to_google_def)
  next
    case None
    let ?s3 = "set_tasks (migrate_buckets m (tasks (data s))) (set_task_lists ls s1)"
    obtain e2 bs s4 where 2: "sync_buckets api (migrate_buckets m (tasks (data s))) ?s3 = (e2, bs, s4)"
      by (cases "sync_buckets api (migrate_buckets m (tasks (data s))) ?s3")
    from only_server_sync_buckets [OF 2] have d4: "task_lists (data s4) = ls"
      by (simp add: only_server_def set_tasks_def set_task_lists_def)
    have t3: "tasks (data (set_task_lists ls s1)) = tasks (data s)"
      by (simp add: set_task_lists_def d1)
    have t4: "tasks (data ?s3) = migrate_buckets m (tasks (data s))"
      by (simp add: set_tasks_def)
    from run d 1 None 2 have "e = e2 \<and> s' = (if e2 = None then save_local_data (set_tasks bs s4) else set_tasks bs s4)"
      by (cases e2) (auto simp: sync_to_google_def Let_def t3 t4)
    with 1 None 2 d4 show ?thesis by simp
  qed
qed

lemma sync_to_google_done:
  assumes run: "sync_to_google api s = (None, s')" and d: "dirty s"
    and dp: "distinct (provisional_ids (task_lists (data s)))"
  shows "list_all2 (list_replaced api) (task_lists (data s)) (task_lists (data s'))
       \<and> list_all2 (\<lambda>b b'. fst b' = fst b \<and> bucket_synced api (fst b) (snd b) (snd b'))
           (migrate_buckets (id_pairs (task_lists (data s)) (task_lists (data s'))) (tasks (data s)))
           (tasks (data s'))
       \<and> \<not> dirty s'"
proof -
  from sync_to_google_parts [OF run d] obtain ls m s1 bs s4 where
    1: "sync_lists api (task_lists (data s)) [] s = (None, ls, m, s1)"
    and 2: "sync_buckets api (migrate_buckets m (tasks (data s)))
                 (set_tasks (migrate_buckets m (tasks (data s))) (set_task_lists ls s1)) = (None, bs, s4)"
    and d4: "task_lists (data s4) = ls"
    and s': "s' = save_local_data (set_tasks bs s4)"
    by auto
  have ls': "task_lists (data s') = ls" and bs': "tasks (data s') = bs" and nd: "\<not> dirty s'"
    by (simp_all add: s' save_local_data_def save_data_def set_tasks_def d4)
  from sync_lists_done [OF 1] have rel: "list_all2 (list_replaced api) (task_lists (data s)) ls"
    and m: "m = fold id_update (id_pairs (task_lists (data s)) ls) []" by simp_all
  have "map (\<lambda>x. Some (JStr x)) (map fst (id_pairs (task_lists (data s)) ls)) = provisional_ids (task_lists (data s))"
    using id_pairs_provisional [OF rel] by (simp add: comp_def)
  with dp have "distinct (map (\<lambda>x. Some (JStr x)) (map fst (id_pairs (task_lists (data s)) ls)))" by simp
  then have "distinct (map fst (id_pairs (task_lists (data s)) ls))" by (rule distinct_map_D)
  then have "fold id_update (id_pairs (task_lists (data s)) ls) [] = [] @ id_pairs (task_lists (data s)) ls"
    by (rule fold_id_update) simp
  with m have m': "m = id_pairs (task_lists (data s)) ls" by simp
  from sync_buckets_done [OF 2] rel nd show ?thesis by (simp add: ls' bs' m')
qed

text \<open>
  The new lists of a pass that completes: when the provisional identifiers are distinct
  and the server answered with distinct identifiers of its own, every new list is
  replaced by the record of the server and its bucket is found under the new identifier.
\<close>

lemma sync_to_google_rekeys:
  assumes run: "sync_to_google api s = (None, s')" and d: "dirty s"
    and dp: "distinct (provisional_ids (task_lists (data s)))"
    and dc: "distinct (created_ids (task_lists (data s)) (task_lists (data s')))"
    and rk: "list_all remote_key_opt (created_ids (task_lists (data s)) (task_lists (data s')))"
  shows "list_all2 (list_rekeyed api (tasks (data s)) (tasks (data s')))
           (task_lists (data s)) (task_lists (data s'))"
proof -
  from sync_to_google_done [OF run d dp]
  have rel: "list_all2 (list_replaced api) (task_lists (data s)) (task_lists (data s'))"
    and bsync: "list_all2 (\<lambda>b b'. fst b' = fst b \<and> bucket_synced api (fst b) (snd b) (snd b'))
           (migrate_buckets (id_pairs (task_lists (data s)) (task_lists (data s'))) (tasks (data s)))
           (tasks (data s'))" by simp_all
  have BR: "list_all2 (task_synced api lid) ts ts'"
    if "\<not> startswith lid ''temp_''" "bucket_synced api (JStr lid) ts ts'" for lid ts ts'
  proof -
    from that(1) have "\<not> startswith lid ''temp_list_''" using startswith_temp_list by blast
    with that(2) show ?thesis by (simp add: bucket_synced_def)
  qed
  from rekeys_core [OF rel dp dc rk bsync BR]
  have "list_all2 (\<lambda>l l'. if new_list l
            then list_created api l l' \<and> bucket_moved (task_synced api) (tasks (data s)) (tasks (data s')) l l'
            else l' = l) (task_lists (data s)) (task_lists (data s'))" by simp
  then show ?thesis
    by (rule list_all2_mono) (simp add: list_rekeyed_def)
qed

subsection \<open>A pass whose calls all succeed\<close>

lemma calls_succeed_data [simp]:
  "calls_succeed api (set_tasks x s) sf = calls_succeed api s sf"
  "calls_succeed api (set_task_lists y s) sf = calls_succeed api s sf"
  "calls_succeed api s (set_tasks x sf) = calls_succeed api s sf"
  "calls_succeed api s (set_task_lists y sf) = calls_succeed api s sf"
  "calls_succeed api s (save_local_data sf) = calls_succeed api s sf"
  by (simp_all add: calls_succeed_def set_tasks_def set_task_lists_def save_local_data_def save_data_def)

lemma extends_data [simp]:
  "extends (set_tasks x s) sf = extends s sf"
  "extends (set_task_lists y s) sf = extends s sf"
  "extends s (set_tasks x sf) = extends s sf"
  "extends s (set_task_lists y sf) = extends s sf"
  "extends s (save_local_data sf) = extends s sf"
  by (simp_all add: extends_def set_tasks_def set_task_lists_def save_local_data_def save_data_def)

lemma sync_task_ok:
  assumes st: "sync_task api lid t s = (e1, t', s1)" and wf: "syncable ''temp_'' t"
    and ext: "extends s1 sf" and ok: "calls_succeed api s sf"
  shows "e1 = None \<and> calls_succeed api s1 sf \<and> kept_or_remote t t'"
proof -
  from syncable_id [OF wf] obtain i where i: "str_id t = Inr i" by blast
  show ?thesis
  proof (cases "truthy (dict_get t ''deleted'')")
    case True
    show ?thesis
    proof (cases "startswith i ''temp_''")
      case True
      with \<open>truthy (dict_get t ''deleted'')\<close> st i ok show ?thesis
        by (simp add: sync_task_def kept_or_remote_def)
    next
      case False
      obtain res sx where c: "call api (TasksDelete lid i) s = (res, sx)"
        by (cases "call api (TasksDelete lid i) s")
      with False \<open>truthy (dict_get t ''deleted'')\<close> st i have eq: "e1 = None" "s1 = sx"
        by (simp_all add: sync_task_def)
      from call_calls_succeed [OF c ext [unfolded eq] ok] have "calls_succeed api sx sf" by blast
      with eq \<open>truthy (dict_get t ''deleted'')\<close> show ?thesis by (simp add: kept_or_remote_def)
    qed
  next
    case live: False
    show ?thesis
    proof (cases "startswith i ''temp_''")
      case True
      from syncable_title [OF wf i live True] obtain title where
        title: "dict_item t ''title'' = Inr title" by blast
      obtain res sx where c: "call api (TasksInsert lid (new_task_body title t)) s = (res, sx)"
        by (cases "call api (TasksInsert lid (new_task_body title t)) s")
      from st live i True title c have s1: "s1 = sx"
        by (cases res) (simp_all add: sync_task_def)
      from call_calls_succeed [OF c ext [unfolded s1] ok] obtain d where
        d: "res = Inr d" "good_response (TasksInsert lid (new_task_body title t)) d"
        "calls_succeed api sx sf" by blast
      from st live i True title c d(1) have "e1 = None" "t' = d"
        by (simp_all add: sync_task_def)
      with d s1 show ?thesis by (simp add: good_response_def kept_or_remote_def)
    next
      case False
      from i False have rt: "remote_id t" by (rule remote_id_intro)
      obtain rg sg where g: "call api (TasksGet lid i) s = (rg, sg)"
        by (cases "call api (TasksGet lid i) s")
      obtain ru su where u: "call api (TasksUpdate lid i t) sg = (ru, su)"
        by (cases "call api (TasksUpdate lid i t) sg")
      have e1: "e1 = None"
        using st live i False g u
        by (cases rg; cases ru) (simp_all add: sync_task_def split: if_splits)
      have "s1 = sg \<or> s1 = su"
        using st live i False g u
        by (cases rg; cases ru) (simp_all add: sync_task_def split: if_splits)
      with ext extends_call [OF u] have extg: "extends sg sf"
        by (auto intro: extends_trans)
      from call_calls_succeed [OF g extg ok] obtain gt where
        gt: "rg = Inr gt" "calls_succeed api sg sf" by blast
      show ?thesis
      proof (cases "task_differs gt t")
        case False
        with st live i \<open>\<not> startswith i ''temp_''\<close> g gt(1) have "s1 = sg" "t' = t"
          by (simp_all add: sync_task_def)
        with e1 gt(2) rt show ?thesis by (simp add: kept_or_remote_def)
      next
        case True
        with st live i \<open>\<not> startswith i ''temp_''\<close> g gt(1) u have s1: "s1 = su"
          by (cases ru) (simp_all add: sync_task_def)
        from call_calls_succeed [OF u ext [unfolded s1] gt(2)] obtain ut where
          ut: "ru = Inr ut" "good_response (TasksUpdate lid i t) ut" "calls_succeed api su sf"
          by blast
        from True st live i \<open>\<not> startswith i ''temp_''\<close> g gt(1) u ut(1) have "t' = ut"
          by (simp add: sync_task_def)
        with e1 s1 ut show ?thesis by (simp add: good_response_def kept_or_remote_def)
      qed
    qed
  qed
qed

lemma sync_tasks_ok:
  assumes wf: "\<forall>t \<in> set ts. syncable ''temp_'' t"
    and run: "sync_tasks api lid ts s = (e, ts', s')"
    and ext: "extends s' sf" and ok: "calls_succeed api s sf"
  shows "e = None \<and> calls_succeed api s' sf \<and> list_all2 kept_or_remote ts ts'"
  using assms
proof (induction ts arbitrary: s e ts' s')
  case Nil
  then show ?case by simp
next
  case (Cons t ts)
  obtain e1 t1 s1 where st: "sync_task api lid t s = (e1, t1, s1)"
    by (cases "sync_task api lid t s")
  from Cons.prems(1) have wt: "syncable ''temp_'' t" and wts: "\<forall>t \<in> set ts. syncable ''temp_'' t"
    by simp_all
  note run = Cons.prems(2) [unfolded sync_tasks_Cons st]
  show ?case
  proof (cases e1)
    case (Some x)
    with run have "s' = s1" by simp
    with Cons.prems(3) have "extends s1 sf" by simp
    from sync_task_ok [OF st wt this Cons.prems(4)] Some show ?thesis by simp
  next
    case None
    obtain e2 ts2 s2 where rec: "sync_tasks api lid ts s1 = (e2, ts2, s2)"
      by (cases "sync_tasks api lid ts s1")
    from run None rec have eq: "e = e2" "ts' = t1 # ts2" "s' = s2"
      by (simp_all add: cons_result_def)
    from extends_sync_tasks [OF rec] Cons.prems(3) have "extends s1 sf"
      by (auto simp: eq intro: extends_trans)
    from sync_task_ok [OF st wt this Cons.prems(4)]
    have ok1: "calls_succeed api s1 sf" and k: "kept_or_remote t t1" by simp_all
    from Cons.prems(3) have "extends s2 sf" by (simp add: eq)
    from Cons.IH [OF wts rec this ok1] k show ?thesis by (simp add: eq)
  qed
qed

lemma sync_list_ok:
  assumes st: "sync_list api l m s = (e1, l', m1, s1)" and wf: "syncable ''temp_list_'' l"
    and ext: "extends s1 sf" and ok: "calls_succeed api s sf"
  shows "e1 = None \<and> calls_succeed api s1 sf \<and> (new_list l \<longrightarrow> remote_id l')"
proof -
  from syncable_id [OF wf] obtain i where i: "str_id l = Inr i" by blast
  note nl = new_list_iff [OF i]
  show ?thesis
  proof (cases "truthy (dict_get l ''deleted'')")
    case True
    then have nn: "\<not> new_list l" by (simp add: nl)
    show ?thesis
    proof (cases "startswith i ''temp_list_''")
      case True
      with \<open>truthy (dict_get l ''deleted'')\<close> st i ok nn show ?thesis
        by (auto simp: sync_list_def)
    next
      case False
      obtain res sx where c: "call api (TasklistsDelete i) s = (res, sx)"
        by (cases "call api (TasklistsDelete i) s")
      with False \<open>truthy (dict_get l ''deleted'')\<close> st i have eq: "e1 = None" "s1 = sx"
        by (simp_all add: sync_list_def)
      from call_calls_succeed [OF c ext [unfolded eq] ok] have "calls_succeed api sx sf" by blast
      with eq nn show ?thesis by simp
    qed
  next
    case live: False
    show ?thesis
    proof (cases "startswith i ''temp_list_''")
      case False
      then have "\<not> new_list l" by (simp add: nl)
      with False live st i ok show ?thesis by (auto simp: sync_list_def)
    next
      case True
      from syncable_title [OF wf i live True] obtain title where
        title: "dict_item l ''title'' = Inr title" by blast
      obtain res sx where c: "call api (TasklistsInsert [(''title'', title)]) s = (res, sx)"
        by (cases "call api (TasklistsInsert [(''title'', title)]) s")
      from st live i True title c have s1: "s1 = sx"
        by (cases res) (simp_all add: sync_list_def split: sum.splits)
      from call_calls_succeed [OF c ext [unfolded s1] ok] obtain d where
        d: "res = Inr d" "good_response (TasklistsInsert [(''title'', title)]) d"
        "calls_succeed api sx sf" by blast
      from d(2) have rd: "remote_id d" by (simp add: good_response_def)
      from remote_id_key [OF rd] obtain k where k: "dict_item d ''id'' = Inr k" by blast
      from st live i True title c d(1) k have "e1 = None" "l' = d"
        by (simp_all add: sync_list_def)
      with d s1 rd show ?thesis by simp
    qed
  qed
qed

lemma sync_lists_ok:
  assumes wf: "\<forall>l \<in> set ls. syncable ''temp_list_'' l"
    and run: "sync_lists api ls m s = (e, ls', m', s')"
    and ext: "extends s' sf" and ok: "calls_succeed api s sf"
  shows "e = None \<and> calls_succeed api s' sf \<and> list_all2 (\<lambda>l l'. new_list l \<longrightarrow> remote_id l') ls ls'"
  using assms
proof (induction ls arbitrary: m s e ls' m' s')
  case Nil
  then show ?case by simp
next
  case (Cons l ls)
  obtain e1 l1 m1 s1 where st: "sync_list api l m s = (e1, l1, m1, s1)"
    by (cases "sync_list api l m s")
  from Cons.prems(1) have wl: "syncable ''temp_list_'' l" and wls: "\<forall>l \<in> set ls. syncable ''temp_list_'' l"
    by simp_all
  note run = Cons.prems(2) [unfolded sync_lists_Cons st]
  show ?case
  proof (cases e1)
    case (Some x)
    with run have "s' = s1" by simp
    with Cons.prems(3) have "extends s1 sf" by simp
    from sync_list_ok [OF st wl this Cons.prems(4)] Some show ?thesis by simp
  next
    case None
    obtain e2 ls2 m2 s2 where rec: "sync_lists api ls m1 s1 = (e2, ls2, m2, s2)"
      by (cases "sync_lists api ls m1 s1")
    from run None rec have eq: "e = e2" "ls' = l1 # ls2" "s' = s2"
      by (simp_all add: cons_result_def)
    from extends_sync_lists [OF rec] Cons.prems(3) have "extends s1 sf"
      by (auto simp: eq intro: extends_trans)
    from sync_list_ok [OF st wl this Cons.prems(4)]
    have ok1: "calls_succeed api s1 sf" and k: "new_list l \<longrightarrow> remote_id l1" by simp_all
    from Cons.prems(3) have "extends s2 sf" by (simp add: eq)
    from Cons.IH [OF wls rec this ok1] k show ?thesis by (simp add: eq)
  qed
qed

lemma sync_bucket_ok:
  assumes st: "sync_bucket api k ts s = (e1, ts', s1)"
    and key: "\<exists>lid. k = JStr lid" and wf: "\<forall>t \<in> set ts. syncable ''temp_'' t"
    and ext: "extends s1 sf" and ok: "calls_succeed api s sf"
  shows "e1 = None \<and> calls_succeed api s1 sf \<and> (remote_key k \<longrightarrow> list_all2 kept_or_remote ts ts')"
proof -
  from key obtain lid where k: "k = JStr lid" by blast
  show ?thesis
  proof (cases "startswith lid ''temp_list_''")
    case True
    then have "\<not> remote_key k" by (simp add: k remote_key_def startswith_temp_list)
    with True st ok show ?thesis by (simp add: sync_bucket_def k)
  next
    case False
    with st have "sync_tasks api lid ts s = (e1, ts', s1)" by (simp add: sync_bucket_def k)
    from sync_tasks_ok [OF wf this ext ok] show ?thesis by simp
  qed
qed

lemma sync_buckets_ok:
  assumes wf: "\<forall>b \<in> set bs. (\<exists>lid. fst b = JStr lid) \<and> (\<forall>t \<in> set (snd b). syncable ''temp_'' t)"
    and run: "sync_buckets api bs s = (e, bs', s')"
    and ext: "extends s' sf" and ok: "calls_succeed api s sf"
  shows "e = None \<and> calls_succeed api s' sf
       \<and> list_all2 (\<lambda>b b'. remote_key (fst b) \<longrightarrow> list_all2 kept_or_remote (snd b) (snd b')) bs bs'"
  using assms
proof (induction bs arbitrary: s e bs' s')
  case Nil
  then show ?case by simp
next
  case (Cons b bs)
  obtain k ts where b: "b = (k, ts)" by (cases b)
  obtain e1 ts1 s1 where st: "sync_bucket api k ts s = (e1, ts1, s1)"
    by (cases "sync_bucket api k ts s")
  from Cons.prems(1) have key: "\<exists>lid. k = JStr lid" and wt: "\<forall>t \<in> set ts. syncable ''temp_'' t"
    and wbs: "\<forall>b \<in> set bs. (\<exists>lid. fst b = JStr lid) \<and> (\<forall>t \<in> set (snd b). syncable ''temp_'' t)"
    by (simp_all add: b)
  note run = Cons.prems(2) [unfolded b sync_buckets_Cons st]
  show ?case
  proof (cases e1)
    case (Some x)
    with run have "s' = s1" by simp
    with Cons.prems(3) have "extends s1 sf" by simp
    from sync_bucket_ok [OF st key wt this Cons.prems(4)] Some show ?thesis by simp
  next
    case None
    obtain e2 bs2 s2 where rec: "sync_buckets api bs s1 = (e2, bs2, s2)"
      by (cases "sync_buckets api bs s1")
    from run None rec have eq: "e = e2" "bs' = (k, ts1) # bs2" "s' = s2"
      by (simp_all add: cons_result_def)
    from extends_sync_buckets [OF rec] Cons.prems(3) have "extends s1 sf"
      by (auto simp: eq intro: extends_trans)
    from sync_bucket_ok [OF st key wt this Cons.prems(4)]
    have ok1: "calls_succeed api s1 sf" and r: "remote_key k \<longrightarrow> list_all2 kept_or_remote ts ts1"
      by simp_all
    from Cons.prems(3) have "extends s2 sf" by (simp add: eq)
    from Cons.IH [OF wbs rec this ok1] r show ?thesis by (simp add: eq b)
  qed
qed

lemma created_ids_remote:
  "list_all2 (\<lambda>l l'. new_list l \<longrightarrow> remote_id l') ls ls' \<Longrightarrow>
   list_all remote_key_opt (created_ids ls ls')"
proof (induction ls ls' rule: list_all2_induct)
  case Nil
  then show ?case by (simp add: created_ids_def)
next
  case (Cons l ls l' ls')
  have "created_ids (l # ls) (l' # ls') = created_ids [l] [l'] @ created_ids ls ls'"
    by (simp add: created_ids_def)
  moreover have "list_all remote_key_opt (created_ids [l] [l'])"
  proof (cases "new_list l")
    case True
    with Cons.hyps(1) have "remote_id l'" by simp
    from remote_id_key [OF this] True show ?thesis
      by (auto simp: created_ids_def remote_key_opt_def)
  next
    case False
    then show ?thesis by (simp add: created_ids_def)
  qed
  ultimately show ?case using Cons.IH by simp
qed

lemma list_all2_conjI:
  "list_all2 P xs ys \<Longrightarrow> list_all2 Q xs ys \<Longrightarrow> list_all2 (\<lambda>x y. P x y \<and> Q x y) xs ys"
  by (simp add: list_all2_conv_all_nth)

lemma list_all2_right:
  "list_all2 P xs ys \<Longrightarrow> y \<in> set ys \<Longrightarrow> \<exists>x \<in> set xs. P x y"
  by (induction xs ys rule: list_all2_induct) auto

lemma id_pairs_remote:
  assumes rel: "list_all2 (list_replaced api) ls ls'"
    and rk: "list_all remote_key_opt (created_ids ls ls')"
    and p: "p \<in> set (id_pairs ls ls')"
  shows "remote_key (snd p)"
proof -
  have c: "map Some (map snd (id_pairs ls ls')) = created_ids ls ls'"
    using id_pairs_created [OF rel] by (simp add: comp_def)
  from p have "Some (snd p) \<in> set (map Some (map snd (id_pairs ls ls')))" by simp
  with c have "Some (snd p) \<in> set (created_ids ls ls')" by simp
  with rk have "remote_key_opt (Some (snd p))" by (simp add: list_all_iff)
  then show ?thesis by (simp add: remote_key_opt_def)
qed

lemma sync_lists_pairs:
  assumes 1: "sync_lists api ls [] s = (None, ls', m, s1)" and dp: "distinct (provisional_ids ls)"
  shows "list_all2 (list_replaced api) ls ls' \<and> m = id_pairs ls ls'"
proof -
  from sync_lists_done [OF 1] have rel: "list_all2 (list_replaced api) ls ls'"
    and m: "m = fold id_update (id_pairs ls ls') []" by simp_all
  have "map (\<lambda>x. Some (JStr x)) (map fst (id_pairs ls ls')) = provisional_ids ls"
    using id_pairs_provisional [OF rel] by (simp add: comp_def)
  with dp have "distinct (map (\<lambda>x. Some (JStr x)) (map fst (id_pairs ls ls')))" by simp
  then have "distinct (map fst (id_pairs ls ls'))" by (rule distinct_map_D)
  then have "fold id_update (id_pairs ls ls') [] = [] @ id_pairs ls ls'"
    by (rule fold_id_update) simp
  with m rel show ?thesis by simp
qed

text \<open>
  When every call of the pass succeeds, the pass completes, the records that replace
  the new lists carry identifiers of the server, and so does every task that is not
  deleted, in every bucket under such an identifier.
\<close>

lemma sync_to_google_ok:
  assumes run: "sync_to_google api s = (e, s')" and ok: "calls_succeed api s s'"
    and wf: "syncable_snapshot (data s)" and d: "dirty s"
    and dp: "distinct (provisional_ids (task_lists (data s)))"
  shows "e = None
       \<and> list_all2 (\<lambda>l l'. new_list l \<longrightarrow> remote_id l') (task_lists (data s)) (task_lists (data s'))
       \<and> list_all2 (\<lambda>b b'. remote_key (fst b) \<longrightarrow> list_all2 kept_or_remote (snd b) (snd b'))
           (migrate_buckets (id_pairs (task_lists (data s)) (task_lists (data s'))) (tasks (data s)))
           (tasks (data s'))"
proof -
  from wf have wl: "\<forall>l \<in> set (task_lists (data s)). syncable ''temp_list_'' l"
    and wb: "\<forall>b \<in> set (tasks (data s)). (\<exists>lid. fst b = JStr lid) \<and> (\<forall>t \<in> set (snd b). syncable ''temp_'' t)"
    by (auto simp: syncable_snapshot_def)
  from sync_to_google_parts [OF run d] show ?thesis
  proof
    assume "\<exists>e1 ls m s1. sync_lists api (task_lists (data s)) [] s = (Some e1, ls, m, s1)
            \<and> e = Some e1 \<and> s' = set_task_lists ls s1"
    then obtain e1 ls m s1 where 1: "sync_lists api (task_lists (data s)) [] s = (Some e1, ls, m, s1)"
      and s': "s' = set_task_lists ls s1" by blast
    have "extends s1 s'" by (simp add: s')
    from sync_lists_ok [OF wl 1 this ok] show ?thesis by simp
  next
    assume "\<exists>ls m s1 e2 bs s4. sync_lists api (task_lists (data s)) [] s = (None, ls, m, s1)
            \<and> sync_buckets api (migrate_buckets m (tasks (data s)))
                 (set_tasks (migrate_buckets m (tasks (data s))) (set_task_lists ls s1)) = (e2, bs, s4)
            \<and> e = e2 \<and> task_lists (data s4) = ls
            \<and> s' = (if e2 = None then save_local_data (set_tasks bs s4) else set_tasks bs s4)"
    then obtain ls m s1 e2 bs s4 where
      1: "sync_lists api (task_lists (data s)) [] s = (None, ls, m, s1)"
      and 2: "sync_buckets api (migrate_buckets m (tasks (data s)))
                 (set_tasks (migrate_buckets m (tasks (data s))) (set_task_lists ls s1)) = (e2, bs, s4)"
      and e: "e = e2" and d4: "task_lists (data s4) = ls"
      and s': "s' = (if e2 = None then save_local_data (set_tasks bs s4) else set_tasks bs s4)"
      by blast
    have ls': "task_lists (data s') = ls" and bs': "tasks (data s') = bs"
      by (simp_all add: s' save_local_data_def save_data_def set_tasks_def d4)
    have x4: "extends s4 s'" by (simp add: s')
    from extends_sync_buckets [OF 2] have "extends s1 s4" by simp
    with x4 have x1: "extends s1 s'" by (rule extends_trans [rotated])
    from sync_lists_ok [OF wl 1 x1 ok] have ok1: "calls_succeed api s1 s'"
      and rl: "list_all2 (\<lambda>l l'. new_list l \<longrightarrow> remote_id l') (task_lists (data s)) ls"
      by simp_all
    from sync_lists_pairs [OF 1 dp] have rel: "list_all2 (list_replaced api) (task_lists (data s)) ls"
      and m: "m = id_pairs (task_lists (data s)) ls" by simp_all
    note rk = created_ids_remote [OF rl]
    let ?mg = "migrate_buckets m (tasks (data s))"
    have w3: "(\<exists>lid. fst b = JStr lid) \<and> (\<forall>t \<in> set (snd b). syncable ''temp_'' t)"
      if b: "b \<in> set ?mg" for b
    proof -
      from b have "fst b \<in> fst ` set ?mg" by simp
      with keys_migrate_buckets [of m "tasks (data s)"]
      have "fst b \<in> fst ` set (tasks (data s)) \<or> fst b \<in> snd ` set m" by blast
      then have k: "\<exists>lid. fst b = JStr lid"
      proof
        assume "fst b \<in> fst ` set (tasks (data s))"
        then obtain b0 where "b0 \<in> set (tasks (data s))" "fst b = fst b0" by auto
        with wb show ?thesis by simp
      next
        assume "fst b \<in> snd ` set m"
        then obtain p where p: "p \<in> set m" "fst b = snd p" by auto
        from id_pairs_remote [OF rel rk] p have "remote_key (fst b)" by (simp add: m)
        with remote_key_str show ?thesis by blast
      qed
      from b have "snd b \<in> snd ` set ?mg" by simp
      with values_migrate_buckets [of m "tasks (data s)"]
      have "snd b \<in> snd ` set (tasks (data s))" by blast
      then obtain b0 where "b0 \<in> set (tasks (data s))" "snd b = snd b0" by auto
      with wb have "\<forall>t \<in> set (snd b). syncable ''temp_'' t" by simp
      with k show ?thesis by simp
    qed
    then have wf3: "\<forall>b \<in> set ?mg. (\<exists>lid. fst b = JStr lid) \<and> (\<forall>t \<in> set (snd b). syncable ''temp_'' t)"
      by blast
    from ok1 have ok3: "calls_succeed api (set_tasks ?mg (set_task_lists ls s1)) s'" by simp
    from sync_buckets_ok [OF wf3 2 x4 ok3] have "e2 = None"
      and "list_all2 (\<lambda>b b'. remote_key (fst b) \<longrightarrow> list_all2 kept_or_remote (snd b) (snd b')) ?mg bs"
      by simp_all
    with rl show ?thesis by (simp add: e ls' bs' m)
  qed
qed

lemma task_migrated_live_remote: "task_migrated api lid t t' \<Longrightarrow> live_remote t'"
  by (auto simp: task_migrated_def task_synced_def kept_or_remote_def live_remote_def)

subsection \<open>The scenario with two new lists and three tasks\<close>

lemma str_nat_2: "str_nat (Suc (Suc 0)) = ''2''"
  by (simp add: str_nat.simps [of "Suc (Suc 0)"] digit_char_def)

lemma str_nat_3: "str_nat (Suc (Suc (Suc 0))) = ''3''"
  by (simp add: str_nat.simps [of "Suc (Suc (Suc 0))"] digit_char_def)

lemma str_nat_4: "str_nat (Suc (Suc (Suc (Suc 0)))) = ''4''"
  by (simp add: str_nat.simps [of "Suc (Suc (Suc (Suc 0)))"] digit_char_def)

lemma str_int_3: "str_int 3 = ''3''"
  by (simp add: str_int_def str_nat.simps [of 3] digit_char_def)

lemma init_empty_service: "init counting_api empty_service = Inr started_service"
  unfolding init_empty by (simp add: started_service_def empty_service_def)

lemma work_service_eq:
  "work_service =
     \<lparr>data = \<lparr>task_lists = [[(''title'', JStr ''Work''), (''id'', JStr ''temp_list_1'')]],
              tasks = [(JStr ''temp_list_1'',
                        [[(''title'', JStr ''Ship''), (''id'', JStr ''temp_1''), (''status'', JStr ''needsAction'')]])]\<rparr>,
      dirty = True, active_list_id = None, remote = 0, requests = [TasklistsList],
      storage_file = Some \<lparr>task_lists = [], tasks = []\<rparr>, storage_writable = True\<rparr>"
  by (simp add: work_service_def started_service_def add_task_def add_list_def empty_service_def str_int_1
      set_task_lists_def set_bucket_def bucket_def Let_def)

lemma busy_service_eq:
  "busy_service =
     \<lparr>data = \<lparr>task_lists = [[(''title'', JStr ''Work''), (''id'', JStr ''temp_list_1'')],
                            [(''title'', JStr ''Play''), (''id'', JStr ''temp_list_2'')]],
              tasks = [(JStr ''temp_list_1'',
                        [[(''title'', JStr ''Ship''), (''id'', JStr ''temp_1''), (''status'', JStr ''needsAction'')],
                         [(''title'', JStr ''Plan''), (''id'', JStr ''temp_3''), (''status'', JStr ''needsAction'')]]),
                       (JStr ''temp_list_2'',
                        [[(''title'', JStr ''Rest''), (''id'', JStr ''temp_2''), (''status'', JStr ''needsAction'')]])]\<rparr>,
      dirty = True, active_list_id = None, remote = 0, requests = [TasklistsList],
      storage_file = Some \<lparr>task_lists = [], tasks = []\<rparr>, storage_writable = True\<rparr>"
  unfolding busy_service_def work_service_eq
  by (simp add: add_task_def add_list_def str_int_2 str_int_3
      set_task_lists_def set_bucket_def bucket_def Let_def)

lemma sync_busy: "sync_to_google counting_api busy_service = (None, busy_synced)"
  unfolding busy_service_eq busy_synced_def
  by (simp add: sync_to_google_def counting_api_def call_def dict_get_def
      str_id_def startswith_def dict_item_def dict_set_def cons_result_def set_task_lists_def
      set_tasks_def new_task_body_def migrate_step_def save_local_data_def save_data_def
      str_nat_0 str_nat_1 str_nat_2 str_nat_3 str_nat_4)

lemma reachable_busy: "reachable counting_api lib busy_service"
proof -
  have "ref_integrity (load_data empty_service)"
    by (simp add: load_data_def empty_service_def ref_integrity_def)
  with init_empty_service have 0: "reachable counting_api lib started_service"
    by (rule reachable.constructed)
  then have 1: "reachable counting_api lib (snd (add_list started_service 1 ''Work''))"
    by (rule reachable.list_added)
  have "has_list (task_lists (data (snd (add_list started_service 1 ''Work'')))) (JStr ''temp_list_1'')"
    by (simp add: add_list_def Let_def set_task_lists_def has_list_def dict_get_def str_int_1)
  with 1 have 2: "reachable counting_api lib work_service"
    unfolding work_service_def by (rule reachable.task_added)
  then have 3: "reachable counting_api lib (snd (add_list work_service 2 ''Play''))"
    by (rule reachable.list_added)
  have "has_list (task_lists (data (snd (add_list work_service 2 ''Play'')))) (JStr ''temp_list_2'')"
    by (simp add: add_list_def Let_def set_task_lists_def has_list_def dict_get_def str_int_2)
  with 3 have 4: "reachable counting_api lib
      (snd (add_task (snd (add_list work_service 2 ''Play'')) 2 ''temp_list_2'' ''Rest''))"
    by (rule reachable.task_added)
  have "has_list (task_lists (data (snd (add_task (snd (add_list work_service 2 ''Play'')) 2 ''temp_list_2'' ''Rest''))))
          (JStr ''temp_list_1'')"
    unfolding work_service_eq
    by (simp add: add_task_def add_list_def Let_def set_task_lists_def set_bucket_def has_list_def dict_get_def)
  with 4 show ?thesis unfolding busy_service_def by (rule reachable.task_added)
qed

lemma busy_hypotheses:
  "calls_succeed counting_api busy_service busy_synced"
  "syncable_snapshot (data busy_service)"
  "dirty busy_service"
  "distinct (provisional_ids (task_lists (data busy_service)))"
  "distinct (created_ids (task_lists (data busy_service)) (task_lists (data busy_synced)))"
  "list_all remote_key_opt (created_ids (task_lists (data busy_service)) (task_lists (data busy_synced)))"
  unfolding busy_service_eq busy_synced_def
  by (simp_all add: calls_succeed_def good_response_def counting_api_def remote_id_def dict_set_def
      startswith_def str_nat_0 str_nat_1 str_nat_2 str_nat_3 str_nat_4
      syncable_snapshot_def syncable_def dict_get_def provisional_ids_def created_ids_def new_list_def
      remote_key_opt_def remote_key_def)

text \<open>
  Two lists that share a provisional identifier (a second \<open>add_list\<close> while the clock
  still reads 1) are outside the hypotheses: \<open>new_list_id_map\<close> keeps the identifier
  of the second record only, and the one bucket goes to it.
\<close>

lemma sync_to_google_shared_provisional_id:
  "\<not> distinct (provisional_ids (task_lists (data (snd (add_list pending_service 1 ''Play'')))))
   \<and> fst (sync_to_google counting_api (snd (add_list pending_service 1 ''Play''))) = None
   \<and> task_lists (data (snd (sync_to_google counting_api (snd (add_list pending_service 1 ''Play'')))))
       = [[(''title'', JStr ''Work''), (''id'', JStr ''srv0'')],
          [(''title'', JStr ''Play''), (''id'', JStr ''srv1'')]]
   \<and> tasks (data (snd (sync_to_google counting_api (snd (add_list pending_service 1 ''Play'')))))
       = [(JStr ''srv1'', [])]"
  unfolding pending_service_eq
  by (simp add: add_list_def str_int_1 set_task_lists_def set_bucket_def Let_def
      provisional_ids_def new_list_def
      sync_to_google_def counting_api_def call_def dict_get_def
      str_id_def startswith_def dict_item_def dict_set_def cons_result_def
      set_tasks_def new_task_body_def migrate_step_def save_local_data_def save_data_def
      str_nat_0 str_nat_1)

subsection \<open>The pass with every call succeeding\<close>

text \<open>
  C3, as the code has it. Take a dirty snapshot that the synchronisation can read, whose
  new lists (provisional identifier, not deleted) have pairwise distinct provisional
  identifiers, and a pass of \<open>sync_to_google\<close> in which every call to the server
  succeeds, each answer to an insert or an update carrying an identifier of the server,
  and in which the lists created get pairwise distinct identifiers. Then the pass returns
  without an exception and leaves \<open>dirty\<close> false. Every new list is replaced, at its
  position, by the record that the server returned for its title, a record with an
  identifier of the server; the provisional identifier of the list is no key of the
  \<open>tasks\<close> dictionary any more; and the bucket that was under it is under the identifier
  of that very record, task for task: a deleted task is unchanged, a task created in the
  cache is replaced by the record that the server returned for its insertion into that
  list, a task of the server is kept or replaced by the answer to its update, and every
  task that is not deleted has an identifier of the server. Every other list record is
  unchanged. In every bucket under an identifier of the server, every task is deleted or
  has an identifier of the server.
\<close>

theorem sync_to_google_migrates_provisional_ids:
  assumes run: "sync_to_google api s = (e, s')" and ok: "calls_succeed api s s'"
    and wf: "syncable_snapshot (data s)" and d: "dirty s"
    and dp: "distinct (provisional_ids (task_lists (data s)))"
    and dc: "distinct (created_ids (task_lists (data s)) (task_lists (data s')))"
  shows "e = None \<and> \<not> dirty s'
       \<and> list_all2 (list_migrated api (tasks (data s)) (tasks (data s')))
           (task_lists (data s)) (task_lists (data s'))
       \<and> (\<forall>b \<in> set (tasks (data s')). remote_key (fst b) \<longrightarrow> (\<forall>t \<in> set (snd b). live_remote t))"
proof -
  let ?ls = "task_lists (data s)" and ?ls' = "task_lists (data s')"
  let ?mg = "migrate_buckets (id_pairs ?ls ?ls') (tasks (data s))"
  let ?B = "\<lambda>k ts ts'. bucket_synced api k ts ts' \<and> (remote_key k \<longrightarrow> list_all2 kept_or_remote ts ts')"
  from sync_to_google_ok [OF run ok wf d dp] have e: "e = None"
    and rl: "list_all2 (\<lambda>l l'. new_list l \<longrightarrow> remote_id l') ?ls ?ls'"
    and b2: "list_all2 (\<lambda>b b'. remote_key (fst b) \<longrightarrow> list_all2 kept_or_remote (snd b) (snd b'))
               ?mg (tasks (data s'))" by simp_all
  from run e have run': "sync_to_google api s = (None, s')" by simp
  from sync_to_google_done [OF run' d dp] have rel: "list_all2 (list_replaced api) ?ls ?ls'"
    and b1: "list_all2 (\<lambda>b b'. fst b' = fst b \<and> bucket_synced api (fst b) (snd b) (snd b'))
               ?mg (tasks (data s'))"
    and nd: "\<not> dirty s'" by simp_all
  note rk = created_ids_remote [OF rl]
  from list_all2_conjI [OF b1 b2]
  have bsync: "list_all2 (\<lambda>b b'. fst b' = fst b \<and> ?B (fst b) (snd b) (snd b')) ?mg (tasks (data s'))"
    by (rule list_all2_mono) simp
  have BR: "list_all2 (task_migrated api lid) ts ts'"
    if "\<not> startswith lid ''temp_''" "?B (JStr lid) ts ts'" for lid ts ts'
  proof -
    from that(1) have "\<not> startswith lid ''temp_list_''" using startswith_temp_list by blast
    with that(2) have "list_all2 (task_synced api lid) ts ts'" by (simp add: bucket_synced_def)
    moreover from that have "list_all2 kept_or_remote ts ts'" by (simp add: remote_key_def)
    ultimately have "list_all2 (\<lambda>t t'. task_synced api lid t t' \<and> kept_or_remote t t') ts ts'"
      by (rule list_all2_conjI)
    then show ?thesis by (rule list_all2_mono) (simp add: task_migrated_def)
  qed
  from rekeys_core [where B = ?B and R = "task_migrated api", OF rel dp dc rk bsync BR]
  have "list_all2 (\<lambda>l l'. if new_list l
            then list_created api l l' \<and> bucket_moved (task_migrated api) (tasks (data s)) (tasks (data s')) l l'
            else l' = l) ?ls ?ls'" by simp
  from list_all2_conjI [OF this rl]
  have lm: "list_all2 (list_migrated api (tasks (data s)) (tasks (data s'))) ?ls ?ls'"
    by (rule list_all2_mono) (simp add: list_migrated_def)
  have gl: "\<forall>t \<in> set (snd b'). live_remote t"
    if b': "b' \<in> set (tasks (data s'))" and r: "remote_key (fst b')" for b'
  proof
    fix t' assume t': "t' \<in> set (snd b')"
    from list_all2_right [OF bsync b'] obtain b where
      b: "fst b' = fst b" "?B (fst b) (snd b) (snd b')" by blast
    from r obtain lid where lid: "fst b' = JStr lid" "\<not> startswith lid ''temp_''"
      using remote_key_str by blast
    from b lid have "?B (JStr lid) (snd b) (snd b')" by simp
    from BR [OF lid(2) this] have "list_all2 (task_migrated api lid) (snd b) (snd b')" .
    from list_all2_right [OF this t'] obtain t where "task_migrated api lid t t'" by blast
    then show "live_remote t'" by (rule task_migrated_live_remote)
  qed
  from e nd lm gl show ?thesis by blast
qed

text \<open>
  The theorem at the scenario with two new lists and three tasks, on the counting
  server: the lists become \<open>srv0\<close> and \<open>srv1\<close>, the two tasks of \<open>Work\<close> are under
  \<open>srv0\<close> as \<open>srv2\<close> and \<open>srv3\<close>, the task of \<open>Play\<close> is under \<open>srv1\<close> as \<open>srv4\<close>.
\<close>

theorem sync_to_google_migrates_provisional_ids_witness:
  "sync_to_google counting_api busy_service = (None, busy_synced)
   \<and> calls_succeed counting_api busy_service busy_synced
   \<and> syncable_snapshot (data busy_service) \<and> dirty busy_service
   \<and> distinct (provisional_ids (task_lists (data busy_service)))
   \<and> distinct (created_ids (task_lists (data busy_service)) (task_lists (data busy_synced)))
   \<and> \<not> dirty busy_synced
   \<and> list_all2 (list_migrated counting_api (tasks (data busy_service)) (tasks (data busy_synced)))
        (task_lists (data busy_service)) (task_lists (data busy_synced))
   \<and> task_lists (data busy_synced)
       = [[(''title'', JStr ''Work''), (''id'', JStr ''srv0'')],
          [(''title'', JStr ''Play''), (''id'', JStr ''srv1'')]]
   \<and> tasks (data busy_synced)
       = [(JStr ''srv0'',
           [[(''title'', JStr ''Ship''), (''id'', JStr ''srv2''), (''status'', JStr ''needsAction'')],
            [(''title'', JStr ''Plan''), (''id'', JStr ''srv3''), (''status'', JStr ''needsAction'')]]),
          (JStr ''srv1'',
           [[(''title'', JStr ''Rest''), (''id'', JStr ''srv4''), (''status'', JStr ''needsAction'')]])]"
proof -
  note h = busy_hypotheses
  from sync_to_google_migrates_provisional_ids [OF sync_busy h(1) h(2) h(3) h(4) h(5)]
  have c: "\<not> dirty busy_synced"
    "list_all2 (list_migrated counting_api (tasks (data busy_service)) (tasks (data busy_synced)))
        (task_lists (data busy_service)) (task_lists (data busy_synced))"
    by blast+
  have ev: "task_lists (data busy_synced)
       = [[(''title'', JStr ''Work''), (''id'', JStr ''srv0'')],
          [(''title'', JStr ''Play''), (''id'', JStr ''srv1'')]]"
    "tasks (data busy_synced)
       = [(JStr ''srv0'',
           [[(''title'', JStr ''Ship''), (''id'', JStr ''srv2''), (''status'', JStr ''needsAction'')],
            [(''title'', JStr ''Plan''), (''id'', JStr ''srv3''), (''status'', JStr ''needsAction'')]]),
          (JStr ''srv1'',
           [[(''title'', JStr ''Rest''), (''id'', JStr ''srv4''), (''status'', JStr ''needsAction'')]])]"
    by (simp_all add: busy_synced_def)
  from sync_busy h(1) h(2) h(3) h(4) h(5) c ev show ?thesis by blast
qed

lemma delete_pending:
  "snd (delete_task pending_service ''temp_list_1'' ''temp_1'') =
     \<lparr>data = \<lparr>task_lists = [[(''title'', JStr ''Work''), (''id'', JStr ''temp_list_1'')]],
              tasks = [(JStr ''temp_list_1'',
                        [[(''title'', JStr ''Ship''), (''id'', JStr ''temp_1''), (''status'', JStr ''needsAction''),
                          (''deleted'', JBool True)]])]\<rparr>,
      dirty = True, active_list_id = None, remote = 0, requests = [],
      storage_file = None, storage_writable = True\<rparr>"
  by (simp add: pending_service_eq delete_task_def bucket_def set_bucket_def dict_set_def)

text \<open>
  C3 as stated fails for a task that was deleted before the synchronisation: in the
  scenario with the task \<open>Ship\<close> deleted, the pass completes, the list and its bucket
  move to \<open>srv0\<close>, and the task is still in the snapshot under its provisional
  identifier \<open>temp_1\<close>.
\<close>

theorem sync_to_google_keeps_deleted_provisional_task:
  "fst (sync_to_google counting_api (snd (delete_task pending_service ''temp_list_1'' ''temp_1''))) = None
   \<and> task_lists (data (snd (sync_to_google counting_api (snd (delete_task pending_service ''temp_list_1'' ''temp_1'')))))
       = [[(''title'', JStr ''Work''), (''id'', JStr ''srv0'')]]
   \<and> tasks (data (snd (sync_to_google counting_api (snd (delete_task pending_service ''temp_list_1'' ''temp_1'')))))
       = [(JStr ''srv0'', [[(''title'', JStr ''Ship''), (''id'', JStr ''temp_1''), (''status'', JStr ''needsAction''),
                            (''deleted'', JBool True)]])]"
  unfolding delete_pending
  by (simp add: sync_to_google_def counting_api_def call_def dict_get_def
      str_id_def startswith_def dict_item_def dict_set_def cons_result_def set_task_lists_def
      set_tasks_def new_task_body_def migrate_step_def save_local_data_def save_data_def str_nat_0 str_nat_1)

section \<open>Referential integrity of the reachable states\<close>

text \<open>
  C7, as the code has it. In every state reached from a constructed service by the
  public operations, with \<open>add_task\<close> given the identifier of a list of the snapshot and
  \<open>sync_to_google\<close> returning without an exception, every key of the \<open>tasks\<close>
  dictionary is the \<open>id\<close> of a record of \<open>task_lists\<close>. And a pass of \<open>sync_to_google\<close>
  that completes on a dirty snapshot re-keys within the pass: when the provisional
  identifiers of the new lists are pairwise distinct and the identifiers that replace
  them are pairwise distinct identifiers of the server, every new list is replaced, at
  its position, by the record that the server returned for its title, its provisional
  identifier is no key of the \<open>tasks\<close> dictionary any more, and the bucket that was
  under it is under the identifier of that very record, task for task as the third loop
  leaves it; every other list record is unchanged; and the pass keeps referential
  integrity.
\<close>

theorem reachable_ref_integrity:
  "(reachable api lib s \<longrightarrow> ref_integrity (data s))
   \<and> (sync_to_google api s0 = (None, s1) \<and> dirty s0
        \<and> distinct (provisional_ids (task_lists (data s0)))
        \<and> distinct (created_ids (task_lists (data s0)) (task_lists (data s1)))
        \<and> list_all remote_key_opt (created_ids (task_lists (data s0)) (task_lists (data s1)))
      \<longrightarrow> list_all2 (list_rekeyed api (tasks (data s0)) (tasks (data s1)))
            (task_lists (data s0)) (task_lists (data s1))
          \<and> (ref_integrity (data s0) \<longrightarrow> ref_integrity (data s1)))"
proof (intro conjI impI)
  assume "reachable api lib s"
  then show "ref_integrity (data s)"
  proof (induction rule: reachable.induct)
    case (constructed w s)
    then show ?case by (rule init_ref_integrity)
  next
    case (pulled s)
    then show ?case by (simp add: sync_from_google_ref_integrity)
  next
    case (saved s)
    then show ?case by (simp add: save_local_data_def save_data_def ref_integrity_def)
  next
    case (task_added s list_id now title)
    then show ?case by (simp add: add_task_ref_integrity)
  next
    case (task_toggled s list_id task_id)
    then show ?case by (simp add: toggle_task_status_def update_task_ref_integrity)
  next
    case (task_deleted s list_id task_id)
    then show ?case by (simp add: delete_task_ref_integrity)
  next
    case (task_renamed s list_id task_id new_name)
    then show ?case by (simp add: rename_task_def update_task_ref_integrity)
  next
    case (task_dated s list_id task_id date_str)
    then show ?case by (simp add: change_date_task_ref_integrity)
  next
    case (task_detailed s list_id task_id detail)
    then show ?case by (simp add: change_detail_task_def update_task_ref_integrity)
  next
    case (list_activated s list_id)
    then show ?case by (simp add: set_active_list_def ref_integrity_def)
  next
    case (list_added s now list_name)
    then show ?case by (simp add: add_list_ref_integrity)
  next
    case (list_deleted s list_id)
    then show ?case by (simp add: delete_list_ref_integrity)
  next
    case (list_renamed s list_id new_title)
    then show ?case by (simp add: rename_list_ref_integrity)
  next
    case (synced s s')
    then show ?case by (simp add: sync_to_google_ref_integrity)
  qed
next
  assume h: "sync_to_google api s0 = (None, s1) \<and> dirty s0
        \<and> distinct (provisional_ids (task_lists (data s0)))
        \<and> distinct (created_ids (task_lists (data s0)) (task_lists (data s1)))
        \<and> list_all remote_key_opt (created_ids (task_lists (data s0)) (task_lists (data s1)))"
  then have run: "sync_to_google api s0 = (None, s1)" and d: "dirty s0"
    and dp: "distinct (provisional_ids (task_lists (data s0)))"
    and dc: "distinct (created_ids (task_lists (data s0)) (task_lists (data s1)))"
    and rk: "list_all remote_key_opt (created_ids (task_lists (data s0)) (task_lists (data s1)))"
    by simp_all
  from run d dp dc rk
  show "list_all2 (list_rekeyed api (tasks (data s0)) (tasks (data s1)))
            (task_lists (data s0)) (task_lists (data s1))"
    by (rule sync_to_google_rekeys)
next
  assume "sync_to_google api s0 = (None, s1) \<and> dirty s0
        \<and> distinct (provisional_ids (task_lists (data s0)))
        \<and> distinct (created_ids (task_lists (data s0)) (task_lists (data s1)))
        \<and> list_all remote_key_opt (created_ids (task_lists (data s0)) (task_lists (data s1)))"
  then have run: "sync_to_google api s0 = (None, s1)" by simp
  assume "ref_integrity (data s0)"
  with run show "ref_integrity (data s1)" by (rule sync_to_google_ref_integrity)
qed

text \<open>
  The theorem at the scenario with two new lists and three tasks, before and after its
  synchronisation with the counting server: both states are reachable, the lists and
  the buckets carry the identifiers \<open>srv0\<close> and \<open>srv1\<close> after the pass.
\<close>

theorem reachable_ref_integrity_witness:
  "reachable counting_api rejecting_dateutil busy_service
   \<and> ref_integrity (data busy_service)
   \<and> sync_to_google counting_api busy_service = (None, busy_synced)
   \<and> dirty busy_service
   \<and> distinct (provisional_ids (task_lists (data busy_service)))
   \<and> distinct (created_ids (task_lists (data busy_service)) (task_lists (data busy_synced)))
   \<and> list_all remote_key_opt (created_ids (task_lists (data busy_service)) (task_lists (data busy_synced)))
   \<and> list_all2 (list_rekeyed counting_api (tasks (data busy_service)) (tasks (data busy_synced)))
        (task_lists (data busy_service)) (task_lists (data busy_synced))
   \<and> reachable counting_api rejecting_dateutil busy_synced
   \<and> ref_integrity (data busy_synced)
   \<and> map (\<lambda>l. dict_get l ''id'') (task_lists (data busy_synced)) = [Some (JStr ''srv0''), Some (JStr ''srv1'')]
   \<and> map fst (tasks (data busy_synced)) = [JStr ''srv0'', JStr ''srv1'']"
proof -
  note h = busy_hypotheses
  note r0 = reachable_busy [of rejecting_dateutil]
  from r0 sync_busy have r1: "reachable counting_api rejecting_dateutil busy_synced"
    by (rule reachable.synced)
  note t0 = reachable_ref_integrity [of counting_api rejecting_dateutil busy_service
      busy_service busy_synced]
  note t1 = reachable_ref_integrity [of counting_api rejecting_dateutil busy_synced
      busy_service busy_synced]
  from t0 r0 have i0: "ref_integrity (data busy_service)" by blast
  from t1 r1 have i1: "ref_integrity (data busy_synced)" by blast
  from t0 sync_busy h(3) h(4) h(5) h(6)
  have k: "list_all2 (list_rekeyed counting_api (tasks (data busy_service)) (tasks (data busy_synced)))
        (task_lists (data busy_service)) (task_lists (data busy_synced))" by blast
  have ev: "map (\<lambda>l. dict_get l ''id'') (task_lists (data busy_synced)) = [Some (JStr ''srv0''), Some (JStr ''srv1'')]"
    "map fst (tasks (data busy_synced)) = [JStr ''srv0'', JStr ''srv1'']"
    by (simp_all add: busy_synced_def dict_get_def)
  from r0 i0 sync_busy h(3) h(4) h(5) h(6) k r1 i1 ev show ?thesis by blast
qed

text \<open>
  C7 as stated fails for \<open>add_task\<close> with an arbitrary list identifier: on the empty
  cache it creates the bucket \<open>nolist\<close>, for which there is no list.
\<close>

theorem add_task_breaks_ref_integrity:
  "ref_integrity (data empty_service)
   \<and> \<not> ref_integrity (data (snd (add_task empty_service 1 ''nolist'' ''Ship'')))"
  by (simp add: ref_integrity_def empty_service_def add_task_def Let_def set_bucket_def bucket_def)

end
